theory Spec2Isabelle
  imports Complex_Main "HOL-Library.Sublist"
begin

section \<open>Strings and exceptions\<close>

text \<open>
  Python exceptions that the modelled code can raise.  A generator that raises after
  having yielded some pairs is modelled by the list of pairs yielded so far together
  with the exception.
\<close>

datatype error =
  AttributeError | NameError | EOFError | ValueError | TypeError | AssertionError | FileExistsError

text \<open>
  \<open>str.lower()\<close> on the ASCII letters; every other character is left as it is.
  Strings are lists of one-byte characters, so \<open>len\<close> is \<open>length\<close>.
\<close>

definition char_lower :: "char \<Rightarrow> char" where
  "char_lower c =
     (case map_of (zip ''ABCDEFGHIJKLMNOPQRSTUVWXYZ'' ''abcdefghijklmnopqrstuvwxyz'') c of
        None \<Rightarrow> c
      | Some d \<Rightarrow> d)"

definition lower :: "string \<Rightarrow> string" where
  "lower s = map char_lower s"

section \<open>document\_filters.py: the manual filters\<close>

text \<open>
  The console is the list of lines the operator will type; \<open>input()\<close> takes the first
  line and raises \<open>EOFError\<close> when none is left.  The cache of \<open>Cacheable\<close> is a
  dictionary from document ids to decisions.  A run of a filter generator to its end
  returns the pairs yielded (in order), the cache afterwards, the console lines that
  were not read, and the exception that ended the run, if any.
\<close>

type_synonym 'd manual_run = "(string \<times> 'd) list \<times> (string \<rightharpoonup> bool) \<times> string list \<times> error option"

definition yield_if :: "bool \<Rightarrow> 'a \<Rightarrow> 'a list \<times> 'b \<Rightarrow> 'a list \<times> 'b" where
  "yield_if b x r = (if b then (x # fst r, snd r) else r)"

text \<open>\<open>ManualDocumentFilter.filter\<close> (lines 89--105).\<close>

fun ManualDocumentFilter_filter ::
  "(string \<rightharpoonup> bool) \<Rightarrow> string list \<Rightarrow> (string \<times> 'd) list \<Rightarrow> 'd manual_run" where
  "ManualDocumentFilter_filter cache console [] = ([], cache, console, None)"
| "ManualDocumentFilter_filter cache console ((pmid, doc) # documents) =
     (case cache pmid of
        Some b \<Rightarrow> yield_if b (pmid, doc) (ManualDocumentFilter_filter cache console documents)
      | None \<Rightarrow>
          (case console of
             [] \<Rightarrow> ([], cache, [], Some EOFError)
           | answer # console' \<Rightarrow>
               (let cache' = cache(pmid \<mapsto> (lower answer \<in> set [''yes'', ''y'']))
                in if lower answer = ''s'' then ([], cache', console', None)
                   else yield_if (lower answer \<in> set [''yes'', ''y'']) (pmid, doc)
                          (ManualDocumentFilter_filter cache' console' documents))))"

text \<open>
  \<open>ManualStatsDocumentFilter\<close>: the object's fields (lines 114--120).  The constructor
  lower-cases the accepted answers and asserts that \<open>no\<close> is not one of them.
\<close>

record stats_filter =
  yes_answers :: "string list"
  answers :: "string \<rightharpoonup> string"
  counter :: "string \<Rightarrow> nat"
  cache :: "string \<rightharpoonup> bool"

definition ManualStatsDocumentFilter_init ::
  "string list \<Rightarrow> (string \<rightharpoonup> bool) \<Rightarrow> error + stats_filter" where
  "ManualStatsDocumentFilter_init yes c =
     (if ''no'' \<in> set (map lower yes) then Inl AssertionError
      else Inr \<lparr>yes_answers = map lower yes, answers = Map.empty, counter = (\<lambda>_. 0), cache = c\<rparr>)"

text \<open>
  The \<open>while True\<close> loop of lines 133--137: it reads lines until one is an accepted
  answer, \<open>no\<close> or \<open>stop\<close>, and returns that answer with the rest of the console.
\<close>

fun prompt_loop :: "string list \<Rightarrow> string list \<Rightarrow> (string \<times> string list) option" where
  "prompt_loop yes [] = None"
| "prompt_loop yes (line # console) =
     (let answer = lower line
      in if answer \<in> set yes \<or> answer = ''no'' \<or> answer = ''stop'' then Some (answer, console)
         else prompt_loop yes console)"

type_synonym 'd stats_run = "(string \<times> 'd) list \<times> stats_filter \<times> string list \<times> error option"

text \<open>\<open>ManualStatsDocumentFilter.filter\<close> (lines 122--147).\<close>

fun ManualStatsDocumentFilter_filter ::
  "stats_filter \<Rightarrow> string list \<Rightarrow> (string \<times> 'd) list \<Rightarrow> 'd stats_run" where
  "ManualStatsDocumentFilter_filter self console [] = ([], self, console, None)"
| "ManualStatsDocumentFilter_filter self console ((docid, doc) # documents) =
     (case cache self docid of
        Some b \<Rightarrow> yield_if b (docid, doc) (ManualStatsDocumentFilter_filter self console documents)
      | None \<Rightarrow>
          (case prompt_loop (yes_answers self) console of
             None \<Rightarrow> ([], self, [], Some EOFError)
           | Some (answer, console') \<Rightarrow>
               if answer = ''stop'' then ([], self, console', None)
               else
                 (let self' = self\<lparr>answers := (answers self)(docid \<mapsto> answer),
                                   counter := (counter self)(answer := counter self answer + 1),
                                   cache := (cache self)(docid \<mapsto> (answer \<in> set (yes_answers self)))\<rparr>
                  in yield_if (answer \<in> set (yes_answers self)) (docid, doc)
                       (ManualStatsDocumentFilter_filter self' console' documents))))"


section \<open>Documents\<close>

text \<open>
  The entities and parts of nalaf, as far as this repository reads them.  A document
  is its ordered dictionary of parts (keys are unique, so iterating the keys and
  fetching each part is iterating the values).  \<open>sentences\<close> (the source's \<open>sentences_\<close>) holds what the sentence
  splitter assigned to the part.
\<close>

record entity =
  class_id :: string
  offset :: int
  etext :: string
  sub_class :: int
  confidence :: real

record part =
  part_text :: string
  sentences :: "string list"
  annotations :: "entity list"
  predicted_annotations :: "entity list"

record document =
  parts :: "(string \<times> part) list"

text \<open>
  A compiled regular expression: its source text and what \<open>search\<close> returns on a
  string, the span of the leftmost match or nothing.  The regex engine itself is not
  part of the repository; patterns are data of the filters.
\<close>

record regex =
  pattern :: string
  search :: "string \<Rightarrow> (nat \<times> nat) option"

section \<open>document\_filters.py: Stub and Keywords\<close>

text \<open>\<open>StubDocumentFilter.filter\<close> (lines 50--52).\<close>

fun StubDocumentFilter_filter :: "(string \<times> 'd) list \<Rightarrow> (string \<times> 'd) list" where
  "StubDocumentFilter_filter [] = []"
| "StubDocumentFilter_filter ((pmid, doc) # documents) = (pmid, doc) # StubDocumentFilter_filter documents"

text \<open>
  \<open>KeywordsDocumentFilter\<close>.  Line 66 stores in \<open>self.keywords\<close> a generator
  expression over the compiled keywords, not a list: every keyword that an \<open>any(...)\<close>
  pulls from it is gone for all later parts and documents.  The state of the filter is
  the list of keywords the generator has not produced yet.

  \<open>any_keyword\<close> is the inner \<open>any\<close> of line 75: it pulls keywords until one
  matches the text, and returns the answer with what is left in the generator.
  \<open>any_part\<close> is the outer \<open>any\<close> over the parts of the document.
\<close>

fun any_keyword :: "regex list \<Rightarrow> string \<Rightarrow> bool \<times> regex list" where
  "any_keyword [] txt = (False, [])"
| "any_keyword (keyword # keywords) txt =
     (if search keyword txt \<noteq> None then (True, keywords) else any_keyword keywords txt)"

fun any_part :: "regex list \<Rightarrow> part list \<Rightarrow> bool \<times> regex list" where
  "any_part keywords [] = (False, keywords)"
| "any_part keywords (p # ps) =
     (case any_keyword keywords (part_text p) of
        (True, keywords') \<Rightarrow> (True, keywords')
      | (False, keywords') \<Rightarrow> any_part keywords' ps)"

text \<open>\<open>KeywordsDocumentFilter.filter\<close> (lines 68--77): the pairs yielded and the generator left.\<close>

fun KeywordsDocumentFilter_filter ::
  "regex list \<Rightarrow> (string \<times> document) list \<Rightarrow> (string \<times> document) list \<times> regex list" where
  "KeywordsDocumentFilter_filter keywords [] = ([], keywords)"
| "KeywordsDocumentFilter_filter keywords ((pmid, doc) # documents) =
     (case any_part keywords (map snd (parts doc)) of
        (b, keywords') \<Rightarrow> yield_if b (pmid, doc) (KeywordsDocumentFilter_filter keywords' documents))"

text \<open>
  The default keywords of line 62, compiled with \<open>re.IGNORECASE\<close>.  \<open>\w*\<close> also matches
  the empty string, so \<open>mutat\w*\<close> is found in a text exactly when the stem \<open>mutat\<close>
  occurs in it, in any case; the span is that of the stem followed by the word
  characters after it.  Only whether \<open>search\<close> finds something is read by the filter.
\<close>

fun find_from :: "nat \<Rightarrow> string \<Rightarrow> string \<Rightarrow> (nat \<times> nat) option" where
  "find_from i stem [] = (if stem = [] then Some (i, i) else None)"
| "find_from i stem (c # cs) =
     (if prefix stem (c # cs) then Some (i, i + length stem) else find_from (Suc i) stem cs)"

definition literal :: "string \<Rightarrow> regex" where
  "literal stem = \<lparr>pattern = stem, search = find_from 0 stem\<rparr>"

definition is_word_char :: "char \<Rightarrow> bool" where
  "is_word_char c = (c \<in> set ''abcdefghijklmnopqrstuvwxyzABCDEFGHIJKLMNOPQRSTUVWXYZ0123456789_'')"

definition stem_ci :: "string \<Rightarrow> regex" where
  "stem_ci stem =
     \<lparr>pattern = stem @ [CHR 0x5C] @ ''w*'',
      search = (\<lambda>txt. case find_from 0 stem (lower txt) of
                         None \<Rightarrow> None
                       | Some (a, b) \<Rightarrow> Some (a, b + length (takeWhile is_word_char (drop b txt))))\<rparr>"

definition default_keywords :: "regex list" where
  "default_keywords =
     [stem_ci ''mutat'', stem_ci ''variat'', stem_ci ''substit'', stem_ci ''insert'',
      stem_ci ''delet'', (literal ''snp'')\<lparr>search := (\<lambda>txt. find_from 0 ''snp'' (lower txt))\<rparr>]"

section \<open>document\_filters.py: the high-recall regex filter\<close>

text \<open>
  The fields of \<open>HighRecallRegexDocumentFilter\<close> that \<open>filter\<close> reads, and the two
  collaborators from outside the repository: \<open>tagger\<close> is lines 300--304 (pipeline,
  labeler, CRF tagging, post-processing, definer) on the deep copy of the document, and
  \<open>overlaps_with_mention d start end\<close> is nalaf's
  \<open>Document.overlaps_with_mention(start, end, annotated=False)\<close>, a predicted annotation
  or nothing.  \<open>min_found\<close> and \<open>use_nala\<close> are the parameters of \<open>filter\<close>, whose
  defaults are 1 and False; the fields of the same names are never read.
\<close>

record hrr_filter =
  patterns :: "regex list"
  threshold :: real
  tagger :: "document \<Rightarrow> document"
  overlaps_with_mention :: "document \<Rightarrow> nat \<Rightarrow> nat \<Rightarrow> entity option"

text \<open>Line 318: the punctuation class is replaced by spaces.\<close>

definition normalize :: "string \<Rightarrow> string" where
  "normalize s = map (\<lambda>c. if c \<in> set ''./-(){}[],%'' then CHR '' '' else c) s"

text \<open>
  The local variables of \<open>filter\<close> that a document's scan changes.  \<open>nala_doc\<close> is
  assigned only at a match (line 350) and keeps its value from one document to the
  next; \<open>yielded\<close> are the pairs yielded so far for this document; \<open>spans\<close> lists the
  \<open>(start, end)\<close> computed at each match (lines 352--353), in order.  Timing and the
  per-pattern hit counts are only printed and are left out.
\<close>

record scan =
  positive_sentences :: int
  nala_doc :: "document option"
  yielded :: "(string \<times> document) list"
  spans :: "(nat \<times> nat) list"

text \<open>The body of the loop over the patterns (lines 323--403) for one pattern.\<close>

definition scan_pattern ::
  "hrr_filter \<Rightarrow> bool \<Rightarrow> string \<times> document \<Rightarrow> document \<Rightarrow> nat \<Rightarrow> nat \<Rightarrow> string \<Rightarrow>
   regex \<Rightarrow> bool \<times> scan \<Rightarrow> bool \<times> scan" where
  "scan_pattern self use_nala pd data_nala part_offset sent_offset new_text reg st =
     (case search reg new_text of
        None \<Rightarrow> st
      | Some (ms, me) \<Rightarrow>
          (let found_in_sentence = fst st;
               s1 = (snd st)\<lparr>nala_doc := Some data_nala\<rparr>;
               start = part_offset + sent_offset + ms;
               end' = part_offset + sent_offset + me;
               s2 = s1\<lparr>spans := spans s1 @ [(start, end')]\<rparr>;
               s3 = (if \<not> found_in_sentence
                     then s2\<lparr>positive_sentences := positive_sentences s2 + 1\<rparr> else s2);
               s4 = (if use_nala
                     then (case overlaps_with_mention self data_nala start end' of
                             None \<Rightarrow> s3
                           | Some m \<Rightarrow>
                               if sub_class m > 0 \<and> confidence m \<le> threshold self
                               then s3\<lparr>yielded := yielded s3 @ [pd]\<rparr> else s3)
                     else s3)
           in (True, s4)))"

fun scan_patterns ::
  "hrr_filter \<Rightarrow> bool \<Rightarrow> string \<times> document \<Rightarrow> document \<Rightarrow> nat \<Rightarrow> nat \<Rightarrow> string \<Rightarrow>
   regex list \<Rightarrow> bool \<times> scan \<Rightarrow> bool \<times> scan" where
  "scan_patterns self use_nala pd data_nala part_offset sent_offset new_text [] st = st"
| "scan_patterns self use_nala pd data_nala part_offset sent_offset new_text (reg # regs) st =
     scan_patterns self use_nala pd data_nala part_offset sent_offset new_text regs
       (scan_pattern self use_nala pd data_nala part_offset sent_offset new_text reg st)"

text \<open>The loop over the sentences of a part (lines 315--408); the state is \<open>sent_offset\<close> and the scan.\<close>

fun scan_sentences ::
  "hrr_filter \<Rightarrow> bool \<Rightarrow> string \<times> document \<Rightarrow> document \<Rightarrow> nat \<Rightarrow> string list \<Rightarrow>
   nat \<times> scan \<Rightarrow> nat \<times> scan" where
  "scan_sentences self use_nala pd data_nala part_offset [] st = st"
| "scan_sentences self use_nala pd data_nala part_offset (sent # sents) st =
     (let sent_offset = fst st;
          sent_length = length sent;
          new_text = normalize (lower sent);
          r = scan_patterns self use_nala pd data_nala part_offset sent_offset new_text
                (patterns self) (False, snd st);
          s' = (if fst r then (snd r)\<lparr>positive_sentences := positive_sentences (snd r) + 1\<rparr>
                else snd r)
      in scan_sentences self use_nala pd data_nala part_offset sents
           (sent_offset + (2 + sent_length), s'))"

text \<open>The loop over the parts (lines 309--410); the state is \<open>part_offset\<close> and the scan.\<close>

fun scan_parts ::
  "hrr_filter \<Rightarrow> bool \<Rightarrow> string \<times> document \<Rightarrow> document \<Rightarrow> part list \<Rightarrow>
   nat \<times> scan \<Rightarrow> nat \<times> scan" where
  "scan_parts self use_nala pd data_nala [] st = st"
| "scan_parts self use_nala pd data_nala (cur_part # ps) st =
     (let part_offset = fst st;
          r = scan_sentences self use_nala pd data_nala part_offset (sentences cur_part)
                (0, snd st)
      in scan_parts self use_nala pd data_nala ps (part_offset + fst r, snd r))"

text \<open>
  Lines 293--410 for one document: the deep copy is tagged when \<open>use_nala\<close> is set,
  \<open>positive_sentences\<close> starts at 0, and \<open>nala_doc\<close> is what the previous documents
  left.
\<close>

definition scan_document ::
  "hrr_filter \<Rightarrow> bool \<Rightarrow> document option \<Rightarrow> string \<times> document \<Rightarrow> scan" where
  "scan_document self use_nala nala pd =
     (let doc = snd pd;
          data_nala = (if use_nala then tagger self doc else doc)
      in snd (scan_parts self use_nala pd data_nala (map snd (parts doc))
                (0, \<lparr>positive_sentences = 0, nala_doc = nala, yielded = [], spans = []\<rparr>)))"

text \<open>
  Lines 411--418: with \<open>use_nala\<close>, every predicted annotation of \<open>nala_doc\<close> with a
  positive subclass adds \<open>min_found\<close> to the count.  When no pattern has matched in
  this or any earlier document, \<open>nala_doc\<close> is unbound and the loop raises.
\<close>

definition corroboration :: "int \<Rightarrow> document \<Rightarrow> int \<Rightarrow> int" where
  "corroboration min_found nd count =
     foldl (\<lambda>c ann. if sub_class ann > 0 then c + min_found else c) count
       (concat (map (\<lambda>p. predicted_annotations (snd p)) (parts nd)))"

definition final_count :: "int \<Rightarrow> bool \<Rightarrow> scan \<Rightarrow> error + int" where
  "final_count min_found use_nala s =
     (if use_nala
      then (case nala_doc s of
              None \<Rightarrow> Inl NameError
            | Some nd \<Rightarrow> Inr (corroboration min_found nd (positive_sentences s)))
      else Inr (positive_sentences s))"

text \<open>
  \<open>HighRecallRegexDocumentFilter.filter\<close> (lines 258--436), run to its end: the pairs
  yielded and the exception that ended the run, if any.
\<close>

fun HighRecallRegexDocumentFilter_filter ::
  "hrr_filter \<Rightarrow> int \<Rightarrow> bool \<Rightarrow> document option \<Rightarrow> (string \<times> document) list \<Rightarrow>
   (string \<times> document) list \<times> error option" where
  "HighRecallRegexDocumentFilter_filter self min_found use_nala nala [] = ([], None)"
| "HighRecallRegexDocumentFilter_filter self min_found use_nala nala ((pmid, doc) # documents) =
     (let s = scan_document self use_nala nala (pmid, doc)
      in case final_count min_found use_nala s of
           Inl e \<Rightarrow> (yielded s, Some e)
         | Inr count \<Rightarrow>
             (let r = HighRecallRegexDocumentFilter_filter self min_found use_nala (nala_doc s) documents
              in (yielded s @ (if count \<ge> min_found then [(pmid, doc)] else []) @ fst r, snd r)))"

section \<open>iteration.py: the constructor\<close>

text \<open>
  \<open>str(n)\<close> and \<open>int(s)\<close> on decimal digits, as \<open>"iteration_{}".format(self.number)\<close>
  and \<open>int(match.group(1))\<close> use them.
\<close>

definition digit_char :: "nat \<Rightarrow> char" where
  "digit_char d = ''0123456789'' ! d"

fun str_nat :: "nat \<Rightarrow> string" where
  "str_nat n = (if n < 10 then [digit_char n] else str_nat (n div 10) @ [digit_char (n mod 10)])"

declare str_nat.simps [simp del]

definition str_int :: "int \<Rightarrow> string" where
  "str_int i = (if i < 0 then CHR ''-'' # str_nat (nat (- i)) else str_nat (nat i))"

definition is_digit :: "char \<Rightarrow> bool" where
  "is_digit c = (c \<in> set ''0123456789'')"

definition digit_val :: "char \<Rightarrow> int" where
  "digit_val c = (case map_of (zip ''0123456789'' [0, 1, 2, 3, 4, 5, 6, 7, 8, 9]) c of
                    None \<Rightarrow> 0 | Some d \<Rightarrow> d)"

definition int_of_digits :: "string \<Rightarrow> int" where
  "int_of_digits ds = foldl (\<lambda>a c. 10 * a + digit_val c) 0 ds"

text \<open>
  \<open>re.search('iteration_([0-9]+)', fn)\<close> (line 102): the leftmost place of \<open>fn\<close> where
  \<open>iteration_\<close> is followed by a digit; group 1 is the longest run of digits there.
\<close>

fun re_search_iteration :: "string \<Rightarrow> string option" where
  "re_search_iteration [] = None"
| "re_search_iteration (c # cs) =
     (if prefix ''iteration_'' (c # cs) \<and> takeWhile is_digit (drop 10 (c # cs)) \<noteq> []
      then Some (takeWhile is_digit (drop 10 (c # cs)))
      else re_search_iteration cs)"

text \<open>
  What the constructor sees of the file system: whether the bootstrapping folder and
  the CRFsuite folder are directories; the path of the bootstrapping folder, as
  \<open>os.path.abspath\<close> returns it; and the entries directly inside that folder.  An entry
  is a directory (or a link to one) with the names of its own sub-directories, a
  symbolic link that points nowhere, or anything else that exists (a file).

  \<open>glob\<close> reads the whole pattern \<open>self.bootstrapping_folder + "/iteration_*/"\<close>: when
  the path of the folder itself contains one of the characters \<open>*\<close>, \<open>?\<close> and \<open>[\<close>, it
  is matched as a pattern against other folders, which this record does not describe;
  \<open>glob_magic\<close> is what \<open>glob.glob\<close> returns in that case.
\<close>

datatype entry = Dir "string list" | File | DanglingLink

record bootfs =
  root_isdir :: bool
  crfsuite_isdir :: bool
  bootstrapping_folder :: string
  entries :: "(string \<times> entry) list"
  glob_magic :: "string list"

definition is_dir_entry :: "entry \<Rightarrow> bool" where
  "is_dir_entry e = (case e of Dir subs \<Rightarrow> True | File \<Rightarrow> False | DanglingLink \<Rightarrow> False)"

text \<open>\<open>glob.has_magic\<close>: the pattern characters of \<open>glob\<close>.\<close>

definition has_magic :: "string \<Rightarrow> bool" where
  "has_magic s = (\<exists>c \<in> set s. c \<in> set ''*?['')"

text \<open>
  \<open>glob.glob(self.bootstrapping_folder + "/iteration_*/")\<close> (lines 100--101).  For a
  folder path without pattern characters these are the paths, with a trailing slash,
  of the directories in the folder whose name starts with \<open>iteration_\<close>.
\<close>

definition glob_iterations :: "bootfs \<Rightarrow> string list" where
  "glob_iterations fs =
     (if has_magic (bootstrapping_folder fs) then glob_magic fs
      else map (\<lambda>e. bootstrapping_folder fs @ ''/'' @ fst e @ ''/'')
             (filter (\<lambda>e. is_dir_entry (snd e) \<and> prefix ''iteration_'' (fst e)) (entries fs)))"

definition iteration_dir :: "int \<Rightarrow> string" where
  "iteration_dir n = ''iteration_'' @ str_int n"

text \<open>\<open>os.path.join(a, b)\<close> for two components.\<close>

definition os_path_join :: "string \<Rightarrow> string \<Rightarrow> string" where
  "os_path_join a b =
     (if b \<noteq> [] \<and> hd b = CHR ''/'' then b
      else if a = [] \<or> last a = CHR ''/'' then a @ b
      else a @ ''/'' @ b)"

text \<open>
  For a name \<open>d\<close> in the bootstrapping folder:
  \<open>os.path.isdir(os.path.join(folder, d, sub))\<close>, \<open>os.path.isdir(os.path.join(folder, d))\<close>,
  \<open>os.path.exists(os.path.join(folder, d))\<close> (false for a link that points nowhere), and
  \<open>os.mkdir(os.path.join(folder, d))\<close>, which raises when the name is taken.
\<close>

definition isdir_sub :: "bootfs \<Rightarrow> string \<Rightarrow> string \<Rightarrow> bool" where
  "isdir_sub fs d sub =
     (\<exists>e \<in> set (entries fs). fst e = d
        \<and> (case snd e of Dir subs \<Rightarrow> sub \<in> set subs | File \<Rightarrow> False | DanglingLink \<Rightarrow> False))"

definition isdir_entry :: "bootfs \<Rightarrow> string \<Rightarrow> bool" where
  "isdir_entry fs d = (\<exists>e \<in> set (entries fs). fst e = d \<and> is_dir_entry (snd e))"

definition path_exists :: "bootfs \<Rightarrow> string \<Rightarrow> bool" where
  "path_exists fs d = (\<exists>e \<in> set (entries fs). fst e = d \<and> snd e \<noteq> DanglingLink)"

definition mkdir :: "bootfs \<Rightarrow> string \<Rightarrow> error + bootfs" where
  "mkdir fs d =
     (if \<exists>e \<in> set (entries fs). fst e = d then Inl FileExistsError
      else Inr (fs\<lparr>entries := entries fs @ [(d, Dir [])]\<rparr>))"

text \<open>
  The loop of lines 101--105.  \<open>match\<close> is \<open>None\<close> when the path holds no
  \<open>iteration_\<close> followed by a digit, and \<open>match.group\<close> raises.
\<close>

fun find_iteration :: "string list \<Rightarrow> int \<Rightarrow> error + int" where
  "find_iteration [] number = Inr number"
| "find_iteration (fn # fns) number =
     (case re_search_iteration fn of
        None \<Rightarrow> Inl AttributeError
      | Some group1 \<Rightarrow>
          (let found_iteration = int_of_digits group1
           in find_iteration fns (if found_iteration > number then found_iteration else number)))"

text \<open>Lines 98--114: \<open>self.number\<close>, from its initial value \<open>-1\<close>.\<close>

definition iteration_number :: "bootfs \<Rightarrow> int option \<Rightarrow> error + int" where
  "iteration_number fs iteration_nr =
     (case iteration_nr of
        Some nr \<Rightarrow> Inr nr
      | None \<Rightarrow>
          (case find_iteration (glob_iterations fs) (- 1) of
             Inl e \<Rightarrow> Inl e
           | Inr number \<Rightarrow>
               (let number' =
                      (if isdir_sub fs (iteration_dir number) ''candidates''
                       then (if isdir_sub fs (iteration_dir number) ''reviewed''
                             then number + 1 else number)
                       else number)
                in Inr (if number' = 0 then number' + 1 else number'))))"

record iteration =
  number :: int
  current_folder :: string
  candidates_folder :: string
  reviewed_folder :: string

datatype init_error = FileNotFoundError string | Raised error

text \<open>
  \<open>Iteration.__init__\<close> (lines 50--121): the object and the file system after the
  constructor has created the working directory, unless something of its name exists.
\<close>

definition Iteration_init :: "bootfs \<Rightarrow> int option \<Rightarrow> init_error + iteration \<times> bootfs" where
  "Iteration_init fs iteration_nr =
     (if \<not> root_isdir fs then Inl (FileNotFoundError (bootstrapping_folder fs))
      else if \<not> crfsuite_isdir fs then Inl (FileNotFoundError ''crfsuite'')
      else case iteration_number fs iteration_nr of
             Inl e \<Rightarrow> Inl (Raised e)
           | Inr n \<Rightarrow>
               (let cur = os_path_join (bootstrapping_folder fs) (iteration_dir n);
                    self = \<lparr>number = n, current_folder = cur,
                            candidates_folder = os_path_join cur ''candidates'',
                            reviewed_folder = os_path_join cur ''reviewed''\<rparr>
                in if path_exists fs (iteration_dir n) then Inr (self, fs)
                   else (case mkdir fs (iteration_dir n) of
                           Inl e \<Rightarrow> Inl (Raised e)
                         | Inr fs' \<Rightarrow> Inr (self, fs'))))"

section \<open>iteration.py: evaluation\<close>

text \<open>
  Entity equality is nalaf's \<open>Entity.__eq__\<close> under the operator
  \<open>exact_or_overlapping\<close> that line 393 selects; it is the parameter \<open>eq\<close>.
  \<open>x in xs\<close> is \<open>any(x is e or x == e for e in xs)\<close>, and \<open>xs.index(x)\<close> is the position of
  the first item that is \<open>x\<close> or equal to it, or a \<open>ValueError\<close>.
\<close>

definition list_contains :: "('a \<Rightarrow> 'a \<Rightarrow> bool) \<Rightarrow> 'a list \<Rightarrow> 'a \<Rightarrow> bool" where
  "list_contains eq xs x = (\<exists>e \<in> set xs. x = e \<or> eq x e)"

fun list_index :: "('a \<Rightarrow> 'a \<Rightarrow> bool) \<Rightarrow> 'a list \<Rightarrow> 'a \<Rightarrow> nat option" where
  "list_index eq [] x = None"
| "list_index eq (e # es) x =
     (if e = x \<or> eq e x then Some 0 else map_option Suc (list_index eq es x))"

text \<open>Lines 398--400 and 402--404: \<open>if x in pool: index = pool.index(x); del pool[index]\<close>.\<close>

definition delete_found :: "('a \<Rightarrow> 'a \<Rightarrow> bool) \<Rightarrow> 'a list \<Rightarrow> 'a \<Rightarrow> error + 'a list" where
  "delete_found eq pool x =
     (if list_contains eq pool x
      then (case list_index eq pool x of
              None \<Rightarrow> Inl ValueError
            | Some index \<Rightarrow> Inr (take index pool @ drop (Suc index) pool))
      else Inr pool)"

text \<open>
  The loop of lines 392--404 over the pairs of the product; the state is the part's
  new results and the two pools \<open>not_found_ann\<close> and \<open>not_found_pred\<close>.
\<close>

fun match_pairs ::
  "(entity \<Rightarrow> entity \<Rightarrow> bool) \<Rightarrow> (entity \<times> entity) list \<Rightarrow>
   (entity \<times> entity) list \<times> entity list \<times> entity list \<Rightarrow>
   error + (entity \<times> entity) list \<times> entity list \<times> entity list" where
  "match_pairs eq [] st = Inr st"
| "match_pairs eq ((ann, pred) # rest) (results, not_found_ann, not_found_pred) =
     (if eq ann pred
      then (case delete_found eq not_found_ann ann of
              Inl e \<Rightarrow> Inl e
            | Inr not_found_ann' \<Rightarrow>
                (case delete_found eq not_found_pred pred of
                   Inl e \<Rightarrow> Inl e
                 | Inr not_found_pred' \<Rightarrow>
                     match_pairs eq rest (results @ [(ann, pred)], not_found_ann', not_found_pred')))
      else match_pairs eq rest (results, not_found_ann, not_found_pred))"

definition empty_entity :: entity where
  "empty_entity = \<lparr>class_id = ''e_2'', offset = - 1, etext = [], sub_class = 0, confidence = 1\<rparr>"

text \<open>Lines 390--406 for one part: what the part adds to \<open>results\<close>.\<close>

definition evaluation_part ::
  "(entity \<Rightarrow> entity \<Rightarrow> bool) \<Rightarrow> part \<Rightarrow> error + (entity \<times> entity) list" where
  "evaluation_part eq p =
     (case match_pairs eq (List.product (annotations p) (predicted_annotations p))
             ([], annotations p, predicted_annotations p) of
        Inl e \<Rightarrow> Inl e
      | Inr (results, not_found_ann, not_found_pred) \<Rightarrow>
          Inr (results @ map (\<lambda>ann. (ann, empty_entity)) not_found_ann
                       @ map (\<lambda>pred. (empty_entity, pred)) not_found_pred))"

text \<open>Lines 388--406: \<open>results\<close> over all parts of the reviewed dataset.\<close>

fun evaluation_results ::
  "(entity \<Rightarrow> entity \<Rightarrow> bool) \<Rightarrow> part list \<Rightarrow> error + (entity \<times> entity) list" where
  "evaluation_results eq [] = Inr []"
| "evaluation_results eq (p # ps) =
     (case evaluation_part eq p of
        Inl e \<Rightarrow> Inl e
      | Inr rs \<Rightarrow> (case evaluation_results eq ps of Inl e \<Rightarrow> Inl e | Inr rs' \<Rightarrow> Inr (rs @ rs')))"

text \<open>
  Modelled from the spec: nalaf's \<open>Entity.__eq__\<close> is not in the repository.  The spec
  calls two entities equal at \<^emph>\<open>exact\<close> strictness when offsets and spans are identical
  and at \<^emph>\<open>overlapping\<close> strictness when their spans intersect at all; the operator of
  line 393 is the disjunction.  It serves as a concrete value of the parameter \<open>eq\<close>.
\<close>

definition end_offset :: "entity \<Rightarrow> int" where
  "end_offset e = offset e + int (length (etext e))"

definition exact_or_overlapping :: "entity \<Rightarrow> entity \<Rightarrow> bool" where
  "exact_or_overlapping a b =
     (class_id a = class_id b \<and>
      ((offset a = offset b \<and> etext a = etext b) \<or>
       (offset a < end_offset b \<and> offset b < end_offset a)))"

section \<open>iteration.py: cross-validation\<close>

text \<open>
  nalaf's \<open>MentionLevelEvaluator\<close> is outside the repository.  \<open>evaluate s test\<close> is
  \<open>MentionLevelEvaluator(strictness=s, subclass_analysis=True).evaluate(test)\<close>: the
  dictionary of the subclasses' measures (in its iteration order) and the total
  measures, each a tuple \<open>(tp, fp, fn, fp_overlap, fn_overlap, precision, recall, f1)\<close>.
  \<open>calc_measures s\<close> is \<open>MentionLevelEvaluator(strictness=s).calc_measures\<close>.  Numbers
  are exact reals.
\<close>

datatype strictness = Exact | Overlapping

record 'd evaluator =
  evaluate :: "strictness \<Rightarrow> 'd \<Rightarrow> (int \<times> real list) list \<times> real list"
  calc_measures :: "strictness \<Rightarrow> real \<Rightarrow> real \<Rightarrow> real \<Rightarrow> real \<Rightarrow> real \<Rightarrow> real list"

definition strictness_name :: "strictness \<Rightarrow> string" where
  "strictness_name s = (case s of Exact \<Rightarrow> ''exact'' | Overlapping \<Rightarrow> ''overlapping'')"

text \<open>A cell of a CSV row: a string, an integer or a number.\<close>

datatype cell = Txt string | Intg int | Num real

text \<open>\<open>d[k].append(v)\<close> on a \<open>defaultdict(list)\<close>, kept in insertion order.\<close>

fun dd_append :: "('k \<times> 'v list) list \<Rightarrow> 'k \<Rightarrow> 'v \<Rightarrow> ('k \<times> 'v list) list" where
  "dd_append [] k v = [(k, [v])]"
| "dd_append ((k', vs) # rest) k v =
     (if k' = k then (k', vs @ [v]) # rest else (k', vs) # dd_append rest k v)"

text \<open>\<open>zip(*rows)\<close>: the columns, as many as the shortest row has.\<close>

definition zip_star :: "'a list list \<Rightarrow> 'a list list" where
  "zip_star xss =
     (case xss of
        [] \<Rightarrow> []
      | xs # rest \<Rightarrow>
          map (\<lambda>i. map (\<lambda>r. r ! i) xss) [0..<foldr (\<lambda>r m. min (length r) m) rest (length xs)])"

record cv_state =
  rows :: "cell list list"
  folds_results_exact :: "real list list"
  folds_results_overlapping :: "real list list"
  subclass_averages_exact :: "(int \<times> real list list) list"
  subclass_averages_overlapping :: "(int \<times> real list list) list"

text \<open>Lines 492--497 and 499--504: the rows of one fold at one strictness.\<close>

definition fold_rows ::
  "nat \<Rightarrow> strictness \<Rightarrow> (int \<times> real list) list \<times> real list \<Rightarrow> cell list list" where
  "fold_rows fold_nr s ev =
     map (\<lambda>sm. [Intg (int fold_nr), Txt (strictness_name s), Intg (fst sm)] @ map Num (snd sm)) (fst ev)
     @ [[Intg (int fold_nr), Txt (strictness_name s), Txt ''total''] @ map Num (snd ev)]"

definition record_fold :: "'d evaluator \<Rightarrow> nat \<Rightarrow> 'd \<Rightarrow> cv_state \<Rightarrow> cv_state" where
  "record_fold ev fold_nr test st =
     (let e = evaluate ev Exact test;
          st1 = st\<lparr>rows := rows st @ fold_rows fold_nr Exact e,
                   subclass_averages_exact :=
                     foldl (\<lambda>d sm. dd_append d (fst sm) (snd sm)) (subclass_averages_exact st) (fst e),
                   folds_results_exact := folds_results_exact st @ [snd e]\<rparr>;
          ov = evaluate ev Overlapping test
      in st1\<lparr>rows := rows st1 @ fold_rows fold_nr Overlapping ov,
              subclass_averages_overlapping :=
                foldl (\<lambda>d sm. dd_append d (fst sm) (snd sm)) (subclass_averages_overlapping st1) (fst ov),
              folds_results_overlapping := folds_results_overlapping st1 @ [snd ov]\<rparr>)"

text \<open>The loop over the folds (lines 472--504), from fold number \<open>fold_nr\<close> on.\<close>

fun record_folds :: "'d evaluator \<Rightarrow> nat \<Rightarrow> 'd list \<Rightarrow> cv_state \<Rightarrow> cv_state" where
  "record_folds ev fold_nr [] st = st"
| "record_folds ev fold_nr (test # tests) st = record_folds ev (Suc fold_nr) tests (record_fold ev fold_nr test st)"

text \<open>\<open>[sum(col)/len(col) for col in zip(*xs)]\<close> and \<open>[sum(col) for col in zip(*xs)][:5]\<close>.\<close>

definition column_means :: "real list list \<Rightarrow> real list" where
  "column_means xs = map (\<lambda>col. sum_list col / real (length col)) (zip_star xs)"

definition column_sums5 :: "real list list \<Rightarrow> real list" where
  "column_sums5 xs = take 5 (map sum_list (zip_star xs))"

text \<open>\<open>calc_measures(*args)\<close>: a call with other than five arguments raises \<open>TypeError\<close>.\<close>

definition call_calc_measures :: "'d evaluator \<Rightarrow> strictness \<Rightarrow> real list \<Rightarrow> error + real list" where
  "call_calc_measures ev s args =
     (case args of
        [tp, fp, fn, fp_overlap, fn_overlap] \<Rightarrow> Inr (calc_measures ev s tp fp fn fp_overlap fn_overlap)
      | _ \<Rightarrow> Inl TypeError)"

text \<open>
  Rows are written one after the other; an exception ends the writing and leaves the
  rows written so far.
\<close>

definition then_rows ::
  "cell list list \<times> error option \<Rightarrow> cell list list \<times> error option \<Rightarrow> cell list list \<times> error option" where
  "then_rows r1 r2 = (case snd r1 of None \<Rightarrow> (fst r1 @ fst r2, snd r2) | Some e \<Rightarrow> r1)"

definition average_rows :: "strictness \<Rightarrow> (int \<times> real list list) list \<Rightarrow> real list list \<Rightarrow> cell list list" where
  "average_rows s subclass_averages folds_results =
     map (\<lambda>sa. [Txt ''average'', Txt (strictness_name s), Intg (fst sa)] @ map Num (column_means (snd sa)))
       subclass_averages
     @ [[Txt ''average'', Txt (strictness_name s), Txt ''total''] @ map Num (column_means folds_results)]"

definition sum_row ::
  "'d evaluator \<Rightarrow> strictness \<Rightarrow> cell \<Rightarrow> real list list \<Rightarrow> cell list list \<times> error option" where
  "sum_row ev s label xs =
     (case call_calc_measures ev s (column_sums5 xs) of
        Inl e \<Rightarrow> ([], Some e)
      | Inr stats \<Rightarrow> ([[Txt ''sum_of_folds'', Txt (strictness_name s), label] @ map Num stats], None))"

fun sum_rows ::
  "'d evaluator \<Rightarrow> strictness \<Rightarrow> (int \<times> real list list) list \<Rightarrow> cell list list \<times> error option" where
  "sum_rows ev s [] = ([], None)"
| "sum_rows ev s (sa # rest) = then_rows (sum_row ev s (Intg (fst sa)) (snd sa)) (sum_rows ev s rest)"

text \<open>
  Lines 507--546, the rows appended to \<open>cross_validation.csv\<close> after the folds.  The
  \<open>sum_of_folds\<close> rows of both strictness settings read \<open>subclass_averages_exact\<close> and
  \<open>folds_results_exact\<close> (lines 527--533 and 537--545).  The rows that the same lines
  append to \<open>stats.csv\<close> are left out.
\<close>

definition aggregate_rows :: "'d evaluator \<Rightarrow> cv_state \<Rightarrow> cell list list \<times> error option" where
  "aggregate_rows ev st =
     then_rows (average_rows Exact (subclass_averages_exact st) (folds_results_exact st), None)
    (then_rows (average_rows Overlapping (subclass_averages_overlapping st) (folds_results_overlapping st), None)
    (then_rows (sum_rows ev Exact (subclass_averages_exact st))
    (then_rows (sum_row ev Exact (Txt ''total'') (folds_results_exact st))
    (then_rows (sum_rows ev Overlapping (subclass_averages_exact st))
               (sum_row ev Overlapping (Txt ''total'') (folds_results_exact st))))))"

definition header_row :: "cell list" where
  "header_row = map Txt [''fold'', ''strictness'', ''sublcass'', ''tp'', ''fp'', ''fn'', ''fp_overlap'',
                       ''fn_overlap'', ''precision'', ''recall'', ''f1-score'']"

text \<open>
  \<open>Iteration.cross_validation\<close> from line 458 on: the rows of \<open>cross_validation.csv\<close>,
  given the tagged test split of every fold.
\<close>

definition cross_validation_rows :: "'d evaluator \<Rightarrow> 'd list \<Rightarrow> cell list list \<times> error option" where
  "cross_validation_rows ev tests =
     (let st = record_folds ev 0 tests
                 \<lparr>rows = [header_row], folds_results_exact = [], folds_results_overlapping = [],
                  subclass_averages_exact = [], subclass_averages_overlapping = []\<rparr>
      in then_rows (rows st, None) (aggregate_rows ev st))"

section \<open>Concrete inputs\<close>

text \<open>
  A document with the single part \<open>AA. BB\<close>, split into the sentences \<open>AA\<close> and
  \<open>BB\<close>; a filter whose only pattern is the literal \<open>bb\<close> (patterns are written for
  the lower-cased, normalised sentence); a tagger that predicts the mention \<open>BB\<close> at
  offset 4 with subclass 1 and confidence 1/2; and a lookup that returns the first
  predicted annotation whose span meets \<open>[start, end]\<close>.
\<close>

definition doc_AA_BB :: document where
  "doc_AA_BB = \<lparr>parts = [(''abstract'', \<lparr>part_text = ''AA. BB'', sentences = [''AA'', ''BB''],
                                          annotations = [], predicted_annotations = []\<rparr>)]\<rparr>"

definition mention_BB :: entity where
  "mention_BB = \<lparr>class_id = ''e_2'', offset = 4, etext = ''BB'', sub_class = 1, confidence = 1 / 2\<rparr>"

definition tag_BB :: "document \<Rightarrow> document" where
  "tag_BB d = \<lparr>parts = map (\<lambda>p. (fst p, (snd p)\<lparr>predicted_annotations := [mention_BB]\<rparr>)) (parts d)\<rparr>"

definition first_overlap :: "document \<Rightarrow> nat \<Rightarrow> nat \<Rightarrow> entity option" where
  "first_overlap d start end' =
     (case filter (\<lambda>ann. int start < end_offset ann \<and> offset ann \<le> int end')
             (concat (map (\<lambda>p. predicted_annotations (snd p)) (parts d))) of
        [] \<Rightarrow> None
      | ann # _ \<Rightarrow> Some ann)"

definition filter_bb :: hrr_filter where
  "filter_bb = \<lparr>patterns = [literal ''bb''], threshold = 1, tagger = tag_BB,
                overlaps_with_mention = first_overlap\<rparr>"

text \<open>Two one-part documents without and with a keyword.\<close>

definition doc_text :: "string \<Rightarrow> document" where
  "doc_text t = \<lparr>parts = [(''abstract'', \<lparr>part_text = t, sentences = [], annotations = [],
                                          predicted_annotations = []\<rparr>)]\<rparr>"

section \<open>The spans of the high-recall filter, as the specification words them\<close>

text \<open>
  \<open>sent_offset\<close> before sentence \<open>j\<close> of a part is the sum of the lengths of the
  sentences before it, plus 2 for each; \<open>part_offset\<close> before part \<open>i\<close> is the sum of
  what the sentences of the parts before it consumed.  Every match of a pattern in the
  normalised sentence \<open>j\<close> of part \<open>i\<close>, with span \<open>(a, b)\<close> in the sentence, is
  reported with both ends shifted by \<open>part_offset + sent_offset\<close>.
\<close>

definition sent_offset_at :: "string list \<Rightarrow> nat \<Rightarrow> nat" where
  "sent_offset_at sents j = (\<Sum>s\<leftarrow>take j sents. length s + 2)"

definition part_offset_at :: "part list \<Rightarrow> nat \<Rightarrow> nat" where
  "part_offset_at ps i = (\<Sum>p\<leftarrow>take i ps. \<Sum>s\<leftarrow>sentences p. length s + 2)"

definition matches_in :: "regex list \<Rightarrow> string \<Rightarrow> (nat \<times> nat) list" where
  "matches_in regs sent =
     concat (map (\<lambda>reg. case search reg (normalize (lower sent)) of None \<Rightarrow> [] | Some m \<Rightarrow> [m]) regs)"

definition shift_span :: "nat \<Rightarrow> nat \<times> nat \<Rightarrow> nat \<times> nat" where
  "shift_span d m = (d + fst m, d + snd m)"

definition spec_spans :: "regex list \<Rightarrow> part list \<Rightarrow> (nat \<times> nat) list" where
  "spec_spans regs ps =
     concat (map (\<lambda>i.
       concat (map (\<lambda>j.
         map (shift_span (part_offset_at ps i + sent_offset_at (sentences (ps ! i)) j))
           (matches_in regs (sentences (ps ! i) ! j)))
         [0..<length (sentences (ps ! i))]))
       [0..<length ps])"


definition fs_no_iteration :: bootfs where
  "fs_no_iteration =
     \<lparr>root_isdir = True, crfsuite_isdir = True, bootstrapping_folder = ''/data/bootstrapping'',
      entries = [(''logs'', Dir [])], glob_magic = []\<rparr>"


definition fs_file_named_iteration :: bootfs where
  "fs_file_named_iteration =
     \<lparr>root_isdir = True, crfsuite_isdir = True, bootstrapping_folder = ''/data/bootstrapping'',
      entries = [(''logs'', Dir []), (''iteration_-1'', File)], glob_magic = []\<rparr>"

text \<open>
  No two annotations of a list are equal to each other: they are different values and
  \<open>eq\<close> holds between no two of them.
\<close>

definition pairwise_unequal :: "('a \<Rightarrow> 'a \<Rightarrow> bool) \<Rightarrow> 'a list \<Rightarrow> bool" where
  "pairwise_unequal eq xs = (distinct xs \<and> (\<forall>x \<in> set xs. \<forall>y \<in> set xs. x \<noteq> y \<longrightarrow> \<not> eq x y))"

text \<open>
  A part with a long gold annotation that overlaps two predictions, a gold annotation
  that no prediction meets, and a prediction that meets no gold annotation.
\<close>

definition gold_long :: entity where
  "gold_long = \<lparr>class_id = ''e_2'', offset = 0, etext = ''ABCDEFGHIJ'', sub_class = 0, confidence = 1\<rparr>"

definition gold_far :: entity where
  "gold_far = \<lparr>class_id = ''e_2'', offset = 40, etext = ''XY'', sub_class = 0, confidence = 1\<rparr>"

definition pred_left :: entity where
  "pred_left = \<lparr>class_id = ''e_2'', offset = 0, etext = ''ABC'', sub_class = 0, confidence = 1\<rparr>"

definition pred_right :: entity where
  "pred_right = \<lparr>class_id = ''e_2'', offset = 5, etext = ''FGH'', sub_class = 0, confidence = 1\<rparr>"

definition pred_alone :: entity where
  "pred_alone = \<lparr>class_id = ''e_2'', offset = 20, etext = ''KLM'', sub_class = 0, confidence = 1\<rparr>"

definition part_overlaps :: part where
  "part_overlaps = \<lparr>part_text = [], sentences = [], annotations = [gold_long, gold_far],
                     predicted_annotations = [pred_left, pred_right, pred_alone]\<rparr>"

text \<open>
  A part whose gold annotation \<open>DE\<close> at offset 3 overlaps the prediction \<open>CDE\<close> at 2
  but not the prediction \<open>ABC\<close> at 0, while the two predictions overlap each other.
\<close>

definition gold_DE :: entity where
  "gold_DE = \<lparr>class_id = ''e_2'', offset = 3, etext = ''DE'', sub_class = 0, confidence = 1\<rparr>"

definition pred_ABC :: entity where
  "pred_ABC = \<lparr>class_id = ''e_2'', offset = 0, etext = ''ABC'', sub_class = 0, confidence = 1\<rparr>"

definition pred_CDE :: entity where
  "pred_CDE = \<lparr>class_id = ''e_2'', offset = 2, etext = ''CDE'', sub_class = 0, confidence = 1\<rparr>"

definition part_overlapping_predictions :: part where
  "part_overlapping_predictions =
     \<lparr>part_text = [], sentences = [], annotations = [gold_DE],
      predicted_annotations = [pred_ABC, pred_CDE]\<rparr>"

section \<open>The aggregate rows of the cross-validation, as the specification words them\<close>

text \<open>
  The per-fold values that the evaluator returned: the total measures of every fold at
  a strictness, the subclasses seen at a strictness in the order of their first
  appearance, and the measures of one subclass in the folds where it appears.
\<close>

definition fold_totals :: "'d evaluator \<Rightarrow> strictness \<Rightarrow> 'd list \<Rightarrow> real list list" where
  "fold_totals ev s tests = map (\<lambda>t. snd (evaluate ev s t)) tests"

definition subclass_occurrences :: "'d evaluator \<Rightarrow> strictness \<Rightarrow> 'd list \<Rightarrow> (int \<times> real list) list" where
  "subclass_occurrences ev s tests = concat (map (\<lambda>t. fst (evaluate ev s t)) tests)"

definition subclasses_seen :: "'d evaluator \<Rightarrow> strictness \<Rightarrow> 'd list \<Rightarrow> int list" where
  "subclasses_seen ev s tests = rev (remdups (rev (map fst (subclass_occurrences ev s tests))))"

definition fold_subclass :: "'d evaluator \<Rightarrow> strictness \<Rightarrow> 'd list \<Rightarrow> int \<Rightarrow> real list list" where
  "fold_subclass ev s tests k =
     map snd (filter (\<lambda>sm. fst sm = k) (subclass_occurrences ev s tests))"

text \<open>
  The arithmetic mean of each of the eight per-fold values, and the measures
  recomputed from the five raw counts summed over the folds.
\<close>

definition column_sum :: "nat \<Rightarrow> real list list \<Rightarrow> real" where
  "column_sum i xs = (\<Sum>x\<leftarrow>xs. x ! i)"

definition mean_of_folds :: "real list list \<Rightarrow> real list" where
  "mean_of_folds xs = map (\<lambda>i. column_sum i xs / real (length xs)) [0..<8]"

definition pooled_measures :: "'d evaluator \<Rightarrow> strictness \<Rightarrow> real list list \<Rightarrow> real list" where
  "pooled_measures ev s xs =
     calc_measures ev s (column_sum 0 xs) (column_sum 1 xs) (column_sum 2 xs) (column_sum 3 xs)
       (column_sum 4 xs)"

text \<open>
  The \<open>average\<close> rows of a strictness are means of that strictness's per-fold values.
  The \<open>sum_of_folds\<close> rows of strictness \<open>s\<close> apply the \<open>calc_measures\<close> of \<open>s\<close> to the
  raw counts of the strictness \<open>counts\<close>, summed over the folds.
\<close>

definition spec_average_rows :: "'d evaluator \<Rightarrow> strictness \<Rightarrow> 'd list \<Rightarrow> cell list list" where
  "spec_average_rows ev s tests =
     map (\<lambda>k. [Txt ''average'', Txt (strictness_name s), Intg k]
               @ map Num (mean_of_folds (fold_subclass ev s tests k)))
       (subclasses_seen ev s tests)
     @ [[Txt ''average'', Txt (strictness_name s), Txt ''total'']
          @ map Num (mean_of_folds (fold_totals ev s tests))]"

definition spec_sum_of_folds_rows ::
  "'d evaluator \<Rightarrow> strictness \<Rightarrow> strictness \<Rightarrow> 'd list \<Rightarrow> cell list list" where
  "spec_sum_of_folds_rows ev s counts tests =
     map (\<lambda>k. [Txt ''sum_of_folds'', Txt (strictness_name s), Intg k]
               @ map Num (pooled_measures ev s (fold_subclass ev counts tests k)))
       (subclasses_seen ev counts tests)
     @ [[Txt ''sum_of_folds'', Txt (strictness_name s), Txt ''total'']
          @ map Num (pooled_measures ev s (fold_totals ev counts tests))]"

text \<open>The rows of the folds themselves, in the order in which lines 492--504 write them.\<close>

definition spec_fold_rows :: "'d evaluator \<Rightarrow> nat \<Rightarrow> 'd list \<Rightarrow> cell list list" where
  "spec_fold_rows ev k tests =
     concat (map (\<lambda>it. fold_rows (fst it) Exact (evaluate ev Exact (snd it))
                        @ fold_rows (fst it) Overlapping (evaluate ev Overlapping (snd it)))
               (enumerate k tests))"

text \<open>Every tuple of measures that the evaluator returns for the folds has eight entries.\<close>

definition eight_measures :: "'d evaluator \<Rightarrow> 'd list \<Rightarrow> bool" where
  "eight_measures ev tests =
     (\<forall>t \<in> set tests. \<forall>s. length (snd (evaluate ev s t)) = 8
        \<and> (\<forall>sm \<in> set (fst (evaluate ev s t)). length (snd sm) = 8))"

text \<open>
  Modelled from the spec: nalaf's \<open>calc_measures\<close> is not in the repository.  The spec
  derives precision, recall and F1 from the true-positive, false-positive and
  false-negative counts in the conventional way, with 0 where a denominator is 0; the
  tuple starts with the five counts.  It serves as a concrete value of the parameter.
\<close>

definition ratio :: "real \<Rightarrow> real \<Rightarrow> real" where
  "ratio a b = (if b = 0 then 0 else a / b)"

definition conventional_measures ::
  "strictness \<Rightarrow> real \<Rightarrow> real \<Rightarrow> real \<Rightarrow> real \<Rightarrow> real \<Rightarrow> real list" where
  "conventional_measures s tp fp fn fp_overlap fn_overlap =
     [tp, fp, fn, fp_overlap, fn_overlap, ratio tp (tp + fp), ratio tp (tp + fn),
      ratio (2 * ratio tp (tp + fp) * ratio tp (tp + fn)) (ratio tp (tp + fp) + ratio tp (tp + fn))]"

text \<open>
  Two folds; the test split of a fold is represented by whether it is the first.  At
  exact strictness the evaluator counts \<open>(2, 1, 1, 1, 0)\<close> and \<open>(1, 1, 0, 0, 0)\<close>; at
  overlapping strictness it counts \<open>(2, 0, 1, 1, 0)\<close> and \<open>(1, 1, 0, 0, 0)\<close>.  Subclass 0
  has the same counts as the total.
\<close>

definition two_fold_counts :: "strictness \<Rightarrow> bool \<Rightarrow> real list" where
  "two_fold_counts s first =
     (if first then (case s of Exact \<Rightarrow> conventional_measures s 2 1 1 1 0
                             | Overlapping \<Rightarrow> conventional_measures s 2 0 1 1 0)
      else conventional_measures s 1 1 0 0 0)"

definition two_fold_evaluator :: "bool evaluator" where
  "two_fold_evaluator =
     \<lparr>evaluate = (\<lambda>s t. ([(0, two_fold_counts s t)], two_fold_counts s t)),
      calc_measures = conventional_measures\<rparr>"

section \<open>Properties of the manual filters\<close>

lemma manual_skip_rejected:
  "c pmid = Some False \<Longrightarrow>
   ManualDocumentFilter_filter c console documents =
   ManualDocumentFilter_filter c console (filter (\<lambda>pd. fst pd \<noteq> pmid) documents)"
proof (induction documents arbitrary: c console)
  case Nil
  then show ?case by simp
next
  case (Cons pd documents)
  obtain p d where pd: "pd = (p, d)" by (cases pd)
  show ?case
  proof (cases "p = pmid")
    case True
    with Cons pd show ?thesis by (simp add: yield_if_def)
  next
    case False
    then have keep: "\<And>b. (c(p \<mapsto> b)) pmid = Some False"
      using Cons.prems by simp
    have IH1: "\<And>cs. ManualDocumentFilter_filter c cs documents =
        ManualDocumentFilter_filter c cs (filter (\<lambda>pd. fst pd \<noteq> pmid) documents)"
      by (rule Cons.IH) (rule Cons.prems)
    have IH2: "\<And>b cs. ManualDocumentFilter_filter (c(p \<mapsto> b)) cs documents =
        ManualDocumentFilter_filter (c(p \<mapsto> b)) cs (filter (\<lambda>pd. fst pd \<noteq> pmid) documents)"
      by (rule Cons.IH) (rule keep)
    show ?thesis
      using False pd IH1 IH2
      by (auto simp: Let_def split: option.splits list.splits)
  qed
qed

lemma prompt_loop_skips:
  "\<forall>line \<in> set bad. lower line \<notin> set yes \<and> lower line \<noteq> ''no'' \<and> lower line \<noteq> ''stop''
   \<Longrightarrow> prompt_loop yes (bad @ console) = prompt_loop yes console"
  by (induction bad) (simp_all add: Let_def)

text \<open>
  C9.  When the operator answers the stop token \<open>s\<close> (in any case) for a document that
  is not in the cache, \<open>ManualDocumentFilter.filter\<close> ends without yielding anything
  more and leaves the cache with the entry False for that document id.  Every later
  run that starts from this cache behaves, whatever the console and the input, as if
  the document were not in its input: it is not yielded and no line is read for it.
  \<open>ManualStatsDocumentFilter.filter\<close>, when the answer for a document not in its cache
  is \<open>stop\<close>, ends with the object (cache, answers, counter) unchanged.
\<close>

theorem C9_stop_is_cached_as_reject:
  assumes "c pmid = None" and "lower answer = ''s''"
    and "cache (self :: stats_filter) docid = None" and "lower line = ''stop''"
  shows "(\<exists>cache'. ManualDocumentFilter_filter c (answer # console) ((pmid, doc) # documents)
                    = ([], cache', console, None)
                \<and> cache' pmid = Some False
                \<and> (\<forall>console2 documents2.
                      ManualDocumentFilter_filter cache' console2 documents2 =
                      ManualDocumentFilter_filter cache' console2
                        (filter (\<lambda>pd. fst pd \<noteq> pmid) documents2)))
       \<and> ManualStatsDocumentFilter_filter self (line # console3) ((docid, doc3) # documents3)
           = ([], self, console3, None)"
proof -
  let ?c = "c(pmid \<mapsto> False)"
  have "lower answer \<noteq> ''yes''" "lower answer \<noteq> ''y''" using assms(2) by simp_all
  then have run: "ManualDocumentFilter_filter c (answer # console) ((pmid, doc) # documents)
                    = ([], ?c, console, None)"
    using assms(1,2) by (simp add: Let_def)
  have later: "\<forall>console2 documents2.
                 ManualDocumentFilter_filter ?c console2 documents2 =
                 ManualDocumentFilter_filter ?c console2 (filter (\<lambda>pd. fst pd \<noteq> pmid) documents2)"
    by (intro allI, rule manual_skip_rejected) simp
  have stats: "ManualStatsDocumentFilter_filter self (line # console3) ((docid, doc3) # documents3)
                 = ([], self, console3, None)"
    using assms(3,4) by simp
  from run later stats show ?thesis by auto
qed

theorem C9_stop_is_cached_as_reject_witness:
  "(Map.empty :: string \<rightharpoonup> bool) ''1'' = None \<and> lower ''S'' = ''s''
   \<and> cache \<lparr>yes_answers = [''yes''], answers = Map.empty, counter = (\<lambda>_. 0), cache = Map.empty\<rparr> ''1'' = None
   \<and> lower ''Stop'' = ''stop''
   \<and> fst (ManualDocumentFilter_filter Map.empty [''S'', ''yes''] [(''1'', doc_AA_BB), (''2'', doc_AA_BB)]) = []
   \<and> ManualStatsDocumentFilter_filter
        \<lparr>yes_answers = [''yes''], answers = Map.empty, counter = (\<lambda>_. 0), cache = Map.empty\<rparr>
        [''Stop'', ''yes''] [(''1'', doc_AA_BB), (''2'', doc_AA_BB)]
      = ([], \<lparr>yes_answers = [''yes''], answers = Map.empty, counter = (\<lambda>_. 0), cache = Map.empty\<rparr>, [''yes''], None)"
  using C9_stop_is_cached_as_reject [of Map.empty "''1''" "''S''"
      "\<lparr>yes_answers = [''yes''], answers = Map.empty, counter = (\<lambda>_. 0), cache = Map.empty\<rparr>"
      "''1''" "''Stop''" "[''yes'']" doc_AA_BB "[(''2'', doc_AA_BB)]" "[''yes'']" doc_AA_BB "[(''2'', doc_AA_BB)]"]
  by (auto simp: lower_def char_lower_def)

text \<open>
  C8, as stated, fails for \<open>ManualDocumentFilter\<close>: with an empty cache and the console
  lines \<open>maybe\<close>, \<open>yes\<close>, the answer \<open>maybe\<close> is recorded as a reject for document 1, the line
  \<open>yes\<close> is never read, and the run differs from the one the operator would get by
  being asked again.
\<close>

theorem C8_manual_filter_records_reject:
  "fst (snd (ManualDocumentFilter_filter Map.empty [''maybe'', ''yes''] [(''1'', doc_AA_BB)])) ''1'' = Some False
   \<and> fst (snd (snd (ManualDocumentFilter_filter Map.empty [''maybe'', ''yes''] [(''1'', doc_AA_BB)]))) = [''yes'']
   \<and> ManualDocumentFilter_filter Map.empty [''maybe'', ''yes''] [(''1'', doc_AA_BB)]
     \<noteq> ManualDocumentFilter_filter Map.empty [''yes''] [(''1'', doc_AA_BB)]"
  by (simp add: lower_def char_lower_def yield_if_def)

text \<open>
  C8, amended.  \<open>ManualStatsDocumentFilter.filter\<close> asks again after every line that is
  not an accepted answer, \<open>no\<close> or \<open>stop\<close>, until such a token is given, and records
  nothing for the lines it skipped: the run is the run without them.
  \<open>ManualDocumentFilter.filter\<close> does not ask again: any answer other than \<open>yes\<close>, \<open>y\<close>
  or \<open>s\<close> (in any case) is recorded as a reject for the document, and the run goes on
  with the next document and the next line.
\<close>

theorem C8_reprompt_only_in_stats_filter:
  assumes bad: "\<forall>line \<in> set bad. lower line \<notin> set (yes_answers self) \<and> lower line \<noteq> ''no'' \<and> lower line \<noteq> ''stop''"
    and good: "lower good \<in> set (yes_answers self) \<or> lower good = ''no'' \<or> lower good = ''stop''"
    and new: "cache self docid = None"
    and new': "c pmid = None"
    and other: "lower answer \<notin> set [''yes'', ''y'', ''s'']"
  shows "prompt_loop (yes_answers self) (bad @ good # console) = Some (lower good, console)
       \<and> ManualStatsDocumentFilter_filter self (bad @ good # console) ((docid, doc) # documents)
         = ManualStatsDocumentFilter_filter self (good # console) ((docid, doc) # documents)
       \<and> ManualDocumentFilter_filter c (answer # console') ((pmid, doc') # documents')
         = ManualDocumentFilter_filter (c(pmid \<mapsto> False)) console' documents'"
proof -
  have skip: "prompt_loop (yes_answers self) (bad @ good # console) = prompt_loop (yes_answers self) (good # console)"
    using bad by (rule prompt_loop_skips)
  have one: "prompt_loop (yes_answers self) (good # console) = Some (lower good, console)"
    using good by (auto simp: Let_def)
  have stats: "ManualStatsDocumentFilter_filter self (bad @ good # console) ((docid, doc) # documents)
         = ManualStatsDocumentFilter_filter self (good # console) ((docid, doc) # documents)"
    using new skip by (simp del: prompt_loop.simps)
  have manual: "ManualDocumentFilter_filter c (answer # console') ((pmid, doc') # documents')
         = ManualDocumentFilter_filter (c(pmid \<mapsto> False)) console' documents'"
    using new' other by (simp add: Let_def yield_if_def)
  from skip one stats manual show ?thesis by simp
qed

theorem C8_reprompt_only_in_stats_filter_witness:
  "lower ''maybe'' \<notin> set [''yes'', ''no'', ''stop''] \<and> lower [] \<notin> set [''yes'', ''no'', ''stop'']
   \<and> lower ''NO'' = ''no''
   \<and> lower ''maybe'' \<notin> set [''yes'', ''y'', ''s'']
   \<and> prompt_loop [''yes''] [''maybe'', '''', ''NO'', ''yes''] = Some (''no'', [''yes''])
   \<and> fst (snd (snd (ManualStatsDocumentFilter_filter
        \<lparr>yes_answers = [''yes''], answers = Map.empty, counter = (\<lambda>_. 0), cache = Map.empty\<rparr>
        [''maybe'', '''', ''NO'', ''yes''] [(''1'', doc_AA_BB)]))) = [''yes'']
   \<and> ManualDocumentFilter_filter Map.empty [''maybe'', ''yes''] [(''1'', doc_AA_BB), (''2'', doc_AA_BB)]
     = ManualDocumentFilter_filter [''1'' \<mapsto> False] [''yes''] [(''2'', doc_AA_BB)]"
proof -
  let ?self = "\<lparr>yes_answers = [''yes''], answers = Map.empty, counter = (\<lambda>_. 0), cache = Map.empty\<rparr>"
  have bad: "\<forall>line \<in> set [''maybe'', '''']. lower line \<notin> set (yes_answers ?self) \<and> lower line \<noteq> ''no'' \<and> lower line \<noteq> ''stop''"
    by (simp add: lower_def char_lower_def)
  have good: "lower ''NO'' \<in> set (yes_answers ?self) \<or> lower ''NO'' = ''no'' \<or> lower ''NO'' = ''stop''"
    by (simp add: lower_def char_lower_def)
  have new: "cache ?self ''1'' = None" by simp
  have new': "(Map.empty :: string \<rightharpoonup> bool) ''1'' = None" by simp
  have other: "lower ''maybe'' \<notin> set [''yes'', ''y'', ''s'']"
    by (simp add: lower_def char_lower_def)
  show ?thesis
    using bad other
      C8_reprompt_only_in_stats_filter [OF bad good new new' other,
        where console = "[''yes'']" and doc = doc_AA_BB and documents = "[]"
          and console' = "[''yes'']" and doc' = doc_AA_BB and documents' = "[(''2'', doc_AA_BB)]"]
    by (simp add: lower_def char_lower_def yield_if_def)
qed

section \<open>Properties of the filters' output\<close>

lemma subseq_yield_if: "subseq (fst r) xs \<Longrightarrow> subseq (fst (yield_if b x r)) (x # xs)"
  by (auto simp: yield_if_def)

lemma Stub_subseq: "subseq (StubDocumentFilter_filter documents) documents"
  by (induction documents rule: StubDocumentFilter_filter.induct) simp_all

lemma Keywords_subseq: "subseq (fst (KeywordsDocumentFilter_filter ks documents)) documents"
proof (induction documents arbitrary: ks)
  case Nil
  then show ?case by simp
next
  case (Cons pd documents)
  obtain p d where pd: "pd = (p, d)" by (cases pd)
  show ?case using Cons.IH pd
    by (auto simp: yield_if_def split: prod.splits)
qed

lemma Manual_subseq: "subseq (fst (ManualDocumentFilter_filter c console documents)) documents"
proof (induction documents arbitrary: c console)
  case Nil
  then show ?case by simp
next
  case (Cons pd documents)
  obtain p d where pd: "pd = (p, d)" by (cases pd)
  show ?case using Cons.IH pd
    by (auto simp: yield_if_def Let_def split: option.splits list.splits)
qed

lemma ManualStats_subseq: "subseq (fst (ManualStatsDocumentFilter_filter self console documents)) documents"
proof (induction documents arbitrary: self console)
  case Nil
  then show ?case by simp
next
  case (Cons pd documents)
  obtain p d where pd: "pd = (p, d)" by (cases pd)
  show ?case using Cons.IH pd
    by (auto simp: yield_if_def Let_def split: option.splits list.splits prod.splits)
qed

lemma scan_patterns_no_nala:
  "yielded (snd (scan_patterns self False pd dn po so txt regs st)) = yielded (snd st)"
  by (induction regs arbitrary: st) (auto simp: scan_pattern_def Let_def split: option.splits)

lemma scan_sentences_no_nala:
  "yielded (snd (scan_sentences self False pd dn po sents st)) = yielded (snd st)"
  by (induction sents arbitrary: st) (auto simp: Let_def scan_patterns_no_nala)

lemma scan_parts_no_nala:
  "yielded (snd (scan_parts self False pd dn ps st)) = yielded (snd st)"
  by (induction ps arbitrary: st) (auto simp: Let_def scan_sentences_no_nala)

lemma scan_document_no_nala: "yielded (scan_document self False nala pd) = []"
  by (simp add: scan_document_def Let_def scan_parts_no_nala)

lemma HighRecall_subseq_without_nala:
  "subseq (fst (HighRecallRegexDocumentFilter_filter self min_found False nala documents)) documents"
proof (induction documents arbitrary: nala)
  case Nil
  then show ?case by simp
next
  case (Cons pd documents)
  obtain p d where pd: "pd = (p, d)" by (cases pd)
  show ?case using Cons.IH pd
    by (auto simp: Let_def scan_document_no_nala final_count_def split: sum.splits)
qed

lemmas fixture_defs = doc_AA_BB_def mention_BB_def tag_BB_def first_overlap_def filter_bb_def doc_text_def
  literal_def stem_ci_def default_keywords_def end_offset_def
lemmas hrr_defs = scan_document_def scan_pattern_def final_count_def corroboration_def normalize_def lower_def char_lower_def

text \<open>
  C2.  The output of a filter is to be a subsequence of its input, no pair yielded
  twice.  The lemmas above give this for the Stub, Keywords and both manual filters,
  and for the high-recall filter without \<open>use_nala\<close>.  With \<open>use_nala\<close> the
  high-recall filter yields at line 400 for a corroborated match, goes on scanning, and
  yields again at line 434: on the one-document input below the output is that
  document twice, which is not a subsequence of the input.
\<close>

theorem C2_high_recall_filter_yields_twice:
  "HighRecallRegexDocumentFilter_filter filter_bb 1 True None [(''1'', doc_AA_BB)]
     = ([(''1'', doc_AA_BB), (''1'', doc_AA_BB)], None)
   \<and> \<not> subseq (fst (HighRecallRegexDocumentFilter_filter filter_bb 1 True None [(''1'', doc_AA_BB)]))
             [(''1'', doc_AA_BB)]"
proof -
  have run: "HighRecallRegexDocumentFilter_filter filter_bb 1 True None [(''1'', doc_AA_BB)]
     = ([(''1'', doc_AA_BB), (''1'', doc_AA_BB)], None)"
    by (simp add: fixture_defs hrr_defs Let_def)
  have "\<not> subseq [(''1'', doc_AA_BB), (''1'', doc_AA_BB)] [(''1'', doc_AA_BB)]"
    by (simp add: subseq_Cons2_iff)
  with run show ?thesis by simp
qed

text \<open>
  C3.  A sentence in which a pattern matches is to add exactly 1 to the count of
  positive sentences.  The code adds 1 at the first match (line 365) and 1 again
  after the loop over the patterns (line 408): the document below has one matching
  sentence, its count is 2, and with \<open>min_found = 2\<close> it is accepted.
\<close>

theorem C3_positive_sentence_counted_twice:
  "positive_sentences (scan_document filter_bb False None (''1'', doc_AA_BB)) = 2
   \<and> HighRecallRegexDocumentFilter_filter filter_bb 2 False None [(''1'', doc_AA_BB)]
     = ([(''1'', doc_AA_BB)], None)"
  by (simp add: fixture_defs hrr_defs Let_def)

text \<open>
  C7.  The decision of the Keywords filter for a document is to depend on that
  document's text alone.  The generator of line 66 is used up by the documents that
  come first: after a document without any keyword no keyword is left, and the
  document \<open>a Mutation\<close>, which the filter yields when it comes alone, is not yielded
  as the second document.
\<close>

theorem C7_keywords_filter_is_stateful:
  "fst (KeywordsDocumentFilter_filter default_keywords
          [(''1'', doc_text ''nothing here''), (''2'', doc_text ''a Mutation'')]) = []
   \<and> fst (KeywordsDocumentFilter_filter default_keywords [(''2'', doc_text ''a Mutation'')])
     = [(''2'', doc_text ''a Mutation'')]"
  by (simp add: fixture_defs yield_if_def lower_def char_lower_def)

section \<open>Offsets of the high-recall filter\<close>

lemma upt_0_Suc_map: "[0..<Suc n] = 0 # map Suc [0..<n]"
  by (simp add: upt_conv_Cons map_Suc_upt del: upt_Suc)

lemma spans_scan_patterns:
  "spans (snd (scan_patterns self un pd dn po so txt regs st)) =
   spans (snd st) @ map (shift_span (po + so))
     (concat (map (\<lambda>reg. case search reg txt of None \<Rightarrow> [] | Some m \<Rightarrow> [m]) regs))"
proof (induction regs arbitrary: st)
  case Nil
  then show ?case by simp
next
  case (Cons reg regs)
  have step: "spans (snd (scan_pattern self un pd dn po so txt reg st)) =
      spans (snd st) @ map (shift_span (po + so)) (case search reg txt of None \<Rightarrow> [] | Some m \<Rightarrow> [m])"
    by (auto simp: scan_pattern_def Let_def shift_span_def split: option.splits)
  show ?case by (simp add: Cons.IH step)
qed

lemma spans_scan_pattern_found:
  "spans (if fst r then (snd r)\<lparr>positive_sentences := k\<rparr> else snd r) = spans (snd r)"
  by simp

lemma scan_sentences_offsets:
  "fst (scan_sentences self un pd dn po sents st) = fst st + (\<Sum>s\<leftarrow>sents. length s + 2)
   \<and> spans (snd (scan_sentences self un pd dn po sents st)) =
     spans (snd st) @ concat (map (\<lambda>j.
         map (shift_span (po + (fst st + sent_offset_at sents j))) (matches_in (patterns self) (sents ! j)))
       [0..<length sents])"
proof (induction sents arbitrary: st)
  case Nil
  then show ?case by simp
next
  case (Cons sent sents)
  let ?r = "scan_patterns self un pd dn po (fst st) (normalize (lower sent)) (patterns self) (False, snd st)"
  let ?s' = "if fst ?r then (snd ?r)\<lparr>positive_sentences := positive_sentences (snd ?r) + 1\<rparr> else snd ?r"
  let ?st' = "(fst st + (2 + length sent), ?s')"
  have unfold: "scan_sentences self un pd dn po (sent # sents) st = scan_sentences self un pd dn po sents ?st'"
    by (simp add: Let_def)
  have here: "spans ?s' = spans (snd st) @ map (shift_span (po + fst st)) (matches_in (patterns self) sent)"
    by (simp add: spans_scan_patterns matches_in_def)
  have offs: "\<And>j. sent_offset_at (sent # sents) (Suc j) = length sent + 2 + sent_offset_at sents j"
    by (simp add: sent_offset_at_def)
  have first: "sent_offset_at (sent # sents) 0 = 0"
    by (simp add: sent_offset_at_def)
  show ?case
    unfolding unfold
    using Cons.IH [of ?st']
    by (simp add: here offs first upt_0_Suc_map comp_def ac_simps del: upt_Suc scan_sentences.simps)
qed

lemma scan_parts_offsets:
  "spans (snd (scan_parts self un pd dn ps st)) =
     spans (snd st) @ concat (map (\<lambda>i.
       concat (map (\<lambda>j.
         map (shift_span (fst st + part_offset_at ps i + sent_offset_at (sentences (ps ! i)) j))
           (matches_in (patterns self) (sentences (ps ! i) ! j)))
         [0..<length (sentences (ps ! i))]))
       [0..<length ps])"
proof (induction ps arbitrary: st)
  case Nil
  then show ?case by simp
next
  case (Cons p ps)
  let ?r = "scan_sentences self un pd dn (fst st) (sentences p) (0, snd st)"
  let ?st' = "(fst st + fst ?r, snd ?r)"
  have unfold: "scan_parts self un pd dn (p # ps) st = scan_parts self un pd dn ps ?st'"
    by (simp add: Let_def)
  have r1: "fst ?r = (\<Sum>s\<leftarrow>sentences p. length s + 2)"
    using scan_sentences_offsets [of self un pd dn "fst st" "sentences p" "(0, snd st)"] by simp
  have r2: "spans (snd ?r) = spans (snd st) @ concat (map (\<lambda>j.
         map (shift_span (fst st + sent_offset_at (sentences p) j)) (matches_in (patterns self) (sentences p ! j)))
       [0..<length (sentences p)])"
    using scan_sentences_offsets [of self un pd dn "fst st" "sentences p" "(0, snd st)"] by simp
  have offs: "\<And>i. part_offset_at (p # ps) (Suc i) = (\<Sum>s\<leftarrow>sentences p. length s + 2) + part_offset_at ps i"
    by (simp add: part_offset_at_def)
  have first: "part_offset_at (p # ps) 0 = 0"
    by (simp add: part_offset_at_def)
  show ?case
    unfolding unfold
    using Cons.IH [of ?st']
    by (simp add: r1 r2 offs first upt_0_Suc_map comp_def ac_simps del: upt_Suc scan_parts.simps)
qed

text \<open>
  C6.  The span computed at a match is \<open>part_offset + sent_offset\<close> plus the span of the
  match in the sentence, where \<open>sent_offset\<close> has advanced by the length plus 2 of
  every earlier sentence of the part and \<open>part_offset\<close> by what the sentences of the
  earlier parts consumed: the spans computed by the scan are those of \<open>spec_spans\<close>,
  for every filter and document.  For the part \<open>AA. BB\<close> with the sentences \<open>AA\<close> and
  \<open>BB\<close> and a pattern that matches \<open>BB\<close>, the span is \<open>(4, 6)\<close>, and characters 4
  to 6 of the part's text are \<open>BB\<close>.
\<close>

theorem C6_absolute_spans:
  "spans (scan_document self use_nala nala (pmid, doc)) = spec_spans (patterns self) (map snd (parts doc))
   \<and> spans (scan_document filter_bb False None (''1'', doc_AA_BB)) = [(4, 6)]
   \<and> take (6 - 4) (drop 4 ''AA. BB'') = ''BB''"
proof -
  have general: "spans (scan_document self use_nala nala (pmid, doc)) = spec_spans (patterns self) (map snd (parts doc))"
    by (simp add: scan_document_def Let_def scan_parts_offsets spec_spans_def)
  have example: "spans (scan_document filter_bb False None (''1'', doc_AA_BB)) = [(4, 6)]"
    by (simp add: fixture_defs hrr_defs Let_def)
  have substring: "take (6 - 4) (drop 4 ''AA. BB'') = ''BB''"
    by simp
  from general example substring show ?thesis by simp
qed

section \<open>The iteration number\<close>

























lemma str_nat_small:
  "str_nat 0 = ''0''" "str_nat (Suc 0) = ''1''" "str_nat 2 = ''2''" "str_nat 3 = ''3''"
  "str_nat 7 = ''7''"
  by (subst str_nat.simps, simp add: digit_char_def)+

lemma iteration_dir_minus_one: "iteration_dir (- 1) = ''iteration_-1''"
  by (simp add: iteration_dir_def str_int_def str_nat_small)

text \<open>
  C10, amended.  Let the bootstrapping folder and the CRFsuite folder be directories,
  let the path of the bootstrapping folder contain none of the pattern characters
  \<open>*\<close>, \<open>?\<close>, \<open>[\<close>, let no directory in the folder have a name that starts with
  \<open>iteration_\<close>, and let nothing in the folder be named \<open>iteration_-1\<close>.  Then the
  constructor, called without an iteration number, leaves the number at \<open>-1\<close>, its
  working directory is \<open>iteration_-1\<close>, and it creates that directory.
\<close>

theorem C10_no_iteration_directory:
  assumes root: "root_isdir fs" and crf: "crfsuite_isdir fs"
    and plain: "\<not> has_magic (bootstrapping_folder fs)"
    and none: "\<forall>e \<in> set (entries fs). is_dir_entry (snd e) \<longrightarrow> \<not> prefix ''iteration_'' (fst e)"
    and free: "\<forall>e \<in> set (entries fs). fst e \<noteq> ''iteration_-1''"
  shows "Iteration_init fs None =
           Inr (\<lparr>number = - 1,
                 current_folder = os_path_join (bootstrapping_folder fs) ''iteration_-1'',
                 candidates_folder =
                   os_path_join (os_path_join (bootstrapping_folder fs) ''iteration_-1'') ''candidates'',
                 reviewed_folder =
                   os_path_join (os_path_join (bootstrapping_folder fs) ''iteration_-1'') ''reviewed''\<rparr>,
                fs\<lparr>entries := entries fs @ [(''iteration_-1'', Dir [])]\<rparr>)"
proof -
  have "filter (\<lambda>e. is_dir_entry (snd e) \<and> prefix ''iteration_'' (fst e)) (entries fs) = []"
    using none by (auto simp: filter_empty_conv simp del: prefix_code)
  then have glob: "glob_iterations fs = []"
    using plain by (simp add: glob_iterations_def del: prefix_code)
  have absent: "\<not> (\<exists>e \<in> set (entries fs). fst e = ''iteration_-1'')"
    using free by auto
  then have nosub: "\<And>sub. \<not> isdir_sub fs ''iteration_-1'' sub"
    and noex: "\<not> path_exists fs ''iteration_-1''"
    by (auto simp: isdir_sub_def path_exists_def)
  have nr: "iteration_number fs None = Inr (- 1)"
    by (simp add: iteration_number_def glob iteration_dir_minus_one nosub)
  show ?thesis
    using root crf absent noex
    by (simp add: Iteration_init_def nr iteration_dir_minus_one mkdir_def Let_def)
qed


lemmas fs_defs = Iteration_init_def iteration_number_def glob_iterations_def has_magic_def
  is_dir_entry_def isdir_sub_def isdir_entry_def path_exists_def mkdir_def os_path_join_def
  iteration_dir_def str_int_def str_nat_small int_of_digits_def digit_val_def is_digit_def


text \<open>
  C10, as stated, fails: in a folder without any iteration directory that holds a
  regular file named \<open>iteration_-1\<close>, the number stays \<open>-1\<close>, but line 120 finds the path
  existing and no directory is created.
\<close>

theorem C10_file_named_like_the_directory:
  "Iteration_init fs_file_named_iteration None =
     Inr (\<lparr>number = - 1,
           current_folder = ''/data/bootstrapping/iteration_-1'',
           candidates_folder = ''/data/bootstrapping/iteration_-1/candidates'',
           reviewed_folder = ''/data/bootstrapping/iteration_-1/reviewed''\<rparr>,
          fs_file_named_iteration)
   \<and> filter (\<lambda>e. is_dir_entry (snd e) \<and> prefix ''iteration_'' (fst e))
        (entries fs_file_named_iteration) = []
   \<and> \<not> isdir_entry fs_file_named_iteration ''iteration_-1''"
  by (simp add: fs_file_named_iteration_def fs_defs Let_def)


theorem C10_no_iteration_directory_witness:
  "Iteration_init fs_no_iteration None =
     Inr (\<lparr>number = - 1,
           current_folder = ''/data/bootstrapping/iteration_-1'',
           candidates_folder = ''/data/bootstrapping/iteration_-1/candidates'',
           reviewed_folder = ''/data/bootstrapping/iteration_-1/reviewed''\<rparr>,
          fs_no_iteration\<lparr>entries := [(''logs'', Dir []), (''iteration_-1'', Dir [])]\<rparr>)"
proof -
  have root: "root_isdir fs_no_iteration" and crf: "crfsuite_isdir fs_no_iteration"
    by (simp_all add: fs_no_iteration_def)
  have plain: "\<not> has_magic (bootstrapping_folder fs_no_iteration)"
    by (simp add: fs_no_iteration_def has_magic_def)
  have none: "\<forall>e \<in> set (entries fs_no_iteration). is_dir_entry (snd e) \<longrightarrow> \<not> prefix ''iteration_'' (fst e)"
    by (simp add: fs_no_iteration_def)
  have free: "\<forall>e \<in> set (entries fs_no_iteration). fst e \<noteq> ''iteration_-1''"
    by (simp add: fs_no_iteration_def)
  from C10_no_iteration_directory [OF root crf plain none free]
  show ?thesis by (simp add: fs_no_iteration_def os_path_join_def)
qed


text \<open>
  Three more inputs outside the conditions above.  A directory whose name starts with
  \<open>iteration_\<close> but goes on without a digit makes \<open>match.group\<close> raise.  When the path of
  the folder holds a pattern character, the glob matches other folders: if there is no
  such folder, the iteration directories of the folder itself are not seen.  A symbolic
  link that points nowhere and has the name of the next iteration makes \<open>os.mkdir\<close>
  raise.
\<close>

lemma dangling_link_raises:
  "Iteration_init \<lparr>root_isdir = True, crfsuite_isdir = True,
                    bootstrapping_folder = ''/data/bootstrapping'',
                    entries = [(''iteration_0'', Dir [''candidates'', ''reviewed'']),
                               (''iteration_1'', DanglingLink)],
                    glob_magic = []\<rparr> None
     = Inl (Raised FileExistsError)"
  by (simp add: fs_defs Let_def)

lemma unnumbered_directory_raises:
  "Iteration_init \<lparr>root_isdir = True, crfsuite_isdir = True,
                    bootstrapping_folder = ''/data/bootstrapping'',
                    entries = [(''iteration_0'', Dir []), (''iteration_x'', Dir [])],
                    glob_magic = []\<rparr> None
     = Inl (Raised AttributeError)"
  by (simp add: fs_defs Let_def)

lemma pattern_in_folder_path:
  "Iteration_init \<lparr>root_isdir = True, crfsuite_isdir = True,
                    bootstrapping_folder = ''/data/boot[1]'',
                    entries = [(''iteration_0'', Dir []), (''iteration_2'', Dir [])],
                    glob_magic = []\<rparr> None
     = Inr (\<lparr>number = - 1,
             current_folder = ''/data/boot[1]/iteration_-1'',
             candidates_folder = ''/data/boot[1]/iteration_-1/candidates'',
             reviewed_folder = ''/data/boot[1]/iteration_-1/reviewed''\<rparr>,
            \<lparr>root_isdir = True, crfsuite_isdir = True,
             bootstrapping_folder = ''/data/boot[1]'',
             entries = [(''iteration_0'', Dir []), (''iteration_2'', Dir []), (''iteration_-1'', Dir [])],
             glob_magic = []\<rparr>)"
  by (simp add: fs_defs Let_def)

section \<open>Pairs recorded by the evaluation\<close>

lemma list_index_unequal:
  assumes "\<forall>y \<in> set pool. x \<noteq> y \<longrightarrow> \<not> eq y x" and "x \<in> set pool" and "distinct pool"
  shows "\<exists>i. list_index eq pool x = Some i \<and> take i pool @ drop (Suc i) pool = filter (\<lambda>e. e \<noteq> x) pool"
  using assms
proof (induction pool)
  case Nil
  then show ?case by simp
next
  case (Cons e es)
  show ?case
  proof (cases "e = x")
    case True
    with Cons.prems have "x \<notin> set es" by simp
    then have "filter (\<lambda>e. e \<noteq> x) es = es" by (auto simp: filter_id_conv)
    with True show ?thesis by simp
  next
    case False
    with Cons.prems have ne: "\<not> eq e x" and rest: "\<forall>y \<in> set es. x \<noteq> y \<longrightarrow> \<not> eq y x"
      and mem: "x \<in> set es" and d: "distinct es"
      by auto
    from Cons.IH [OF rest mem d] obtain i where
      "list_index eq es x = Some i" "take i es @ drop (Suc i) es = filter (\<lambda>e. e \<noteq> x) es"
      by blast
    with False ne show ?thesis by simp
  qed
qed

lemma delete_found_unequal:
  assumes "\<forall>y \<in> set pool. x \<noteq> y \<longrightarrow> \<not> eq x y \<and> \<not> eq y x" and "distinct pool"
  shows "delete_found eq pool x = Inr (filter (\<lambda>e. e \<noteq> x) pool)"
proof (cases "x \<in> set pool")
  case True
  then have c: "list_contains eq pool x" by (auto simp: list_contains_def)
  from assms(1) have "\<forall>y \<in> set pool. x \<noteq> y \<longrightarrow> \<not> eq y x" by blast
  then have "\<exists>i. list_index eq pool x = Some i
                \<and> take i pool @ drop (Suc i) pool = filter (\<lambda>e. e \<noteq> x) pool"
    using True assms(2) by (rule list_index_unequal)
  with c show ?thesis
    by (auto simp: delete_found_def)
next
  case False
  with assms(1) have "\<not> list_contains eq pool x" by (auto simp: list_contains_def)
  moreover from False have "filter (\<lambda>e. e \<noteq> x) pool = pool" by (auto simp: filter_id_conv)
  ultimately show ?thesis by (simp add: delete_found_def)
qed


lemma match_pairs_unequal:
  assumes "\<forall>x \<in> A. \<forall>y \<in> A. x \<noteq> y \<longrightarrow> \<not> eq x y"
    and "\<forall>x \<in> P. \<forall>y \<in> P. x \<noteq> y \<longrightarrow> \<not> eq x y"
    and "fst ` set prs \<subseteq> A" and "snd ` set prs \<subseteq> P"
    and "set na \<subseteq> A" and "set np \<subseteq> P" and "distinct na" and "distinct np"
  shows "match_pairs eq prs (res, na, np) =
           Inr (res @ filter (\<lambda>pr. eq (fst pr) (snd pr)) prs,
                filter (\<lambda>a. \<not> (\<exists>pr \<in> set prs. fst pr = a \<and> eq a (snd pr))) na,
                filter (\<lambda>p. \<not> (\<exists>pr \<in> set prs. snd pr = p \<and> eq (fst pr) p)) np)"
  using assms(3-)
proof (induction prs arbitrary: res na np)
  case Nil
  then show ?case by simp
next
  case (Cons pr prs)
  obtain a p where pr: "pr = (a, p)" by (cases pr)
  from Cons.prems pr have aA: "a \<in> A" and pP: "p \<in> P"
    and sub: "fst ` set prs \<subseteq> A" "snd ` set prs \<subseteq> P"
    by auto
  let ?Qa = "\<lambda>x. \<exists>pr \<in> set prs. fst pr = x \<and> eq x (snd pr)"
  let ?Qp = "\<lambda>y. \<exists>pr \<in> set prs. snd pr = y \<and> eq (fst pr) y"
  have qa: "\<And>x. (\<exists>pr \<in> set ((a, p) # prs). fst pr = x \<and> eq x (snd pr)) \<longleftrightarrow> (x = a \<and> eq a p) \<or> ?Qa x"
    by auto
  have qp: "\<And>y. (\<exists>pr \<in> set ((a, p) # prs). snd pr = y \<and> eq (fst pr) y) \<longleftrightarrow> (y = p \<and> eq a p) \<or> ?Qp y"
    by auto
  show ?case
  proof (cases "eq a p")
    case False
    have "match_pairs eq ((a, p) # prs) (res, na, np) = match_pairs eq prs (res, na, np)"
      using False by simp
    also have "\<dots> = Inr (res @ filter (\<lambda>pr. eq (fst pr) (snd pr)) prs, filter (\<lambda>x. \<not> ?Qa x) na, filter (\<lambda>y. \<not> ?Qp y) np)"
      using sub Cons.prems(3-6) by (rule Cons.IH)
    finally have fin: "match_pairs eq ((a, p) # prs) (res, na, np) =
        Inr (res @ filter (\<lambda>pr. eq (fst pr) (snd pr)) prs, filter (\<lambda>x. \<not> ?Qa x) na, filter (\<lambda>y. \<not> ?Qp y) np)" .
    have f1: "filter (\<lambda>pr. eq (fst pr) (snd pr)) ((a, p) # prs) = filter (\<lambda>pr. eq (fst pr) (snd pr)) prs"
      using False by simp
    have f2: "filter (\<lambda>x. \<not> ((x = a \<and> eq a p) \<or> ?Qa x)) na = filter (\<lambda>x. \<not> ?Qa x) na"
      using False by (simp only: simp_thms)
    have f3: "filter (\<lambda>y. \<not> ((y = p \<and> eq a p) \<or> ?Qp y)) np = filter (\<lambda>y. \<not> ?Qp y) np"
      using False by (simp only: simp_thms)
    show ?thesis
      apply (simp only: pr)
      apply (simp only: qa qp)
      apply (simp only: f1 f2 f3)
      apply (rule fin)
      done
  next
    case True
    have "\<forall>y \<in> set na. a \<noteq> y \<longrightarrow> \<not> eq a y \<and> \<not> eq y a"
      using assms(1) aA Cons.prems(3) by (auto dest: subsetD)
    then have da: "delete_found eq na a = Inr (filter (\<lambda>e. e \<noteq> a) na)"
      using Cons.prems(5) by (rule delete_found_unequal)
    have "\<forall>y \<in> set np. p \<noteq> y \<longrightarrow> \<not> eq p y \<and> \<not> eq y p"
      using assms(2) pP Cons.prems(4) by (auto dest: subsetD)
    then have dp: "delete_found eq np p = Inr (filter (\<lambda>e. e \<noteq> p) np)"
      using Cons.prems(6) by (rule delete_found_unequal)
    have s1: "set (filter (\<lambda>e. e \<noteq> a) na) \<subseteq> A" using Cons.prems(3) by auto
    have s2: "set (filter (\<lambda>e. e \<noteq> p) np) \<subseteq> P" using Cons.prems(4) by auto
    have d1: "distinct (filter (\<lambda>e. e \<noteq> a) na)" using Cons.prems(5) by simp
    have d2: "distinct (filter (\<lambda>e. e \<noteq> p) np)" using Cons.prems(6) by simp
    have "match_pairs eq ((a, p) # prs) (res, na, np)
          = match_pairs eq prs (res @ [(a, p)], filter (\<lambda>e. e \<noteq> a) na, filter (\<lambda>e. e \<noteq> p) np)"
      using True by (simp add: da dp)
    also have "\<dots> = Inr ((res @ [(a, p)]) @ filter (\<lambda>pr. eq (fst pr) (snd pr)) prs,
                filter (\<lambda>x. \<not> ?Qa x) (filter (\<lambda>e. e \<noteq> a) na),
                filter (\<lambda>y. \<not> ?Qp y) (filter (\<lambda>e. e \<noteq> p) np))"
      using sub s1 s2 d1 d2 by (rule Cons.IH)
    also have "filter (\<lambda>x. \<not> ?Qa x) (filter (\<lambda>e. e \<noteq> a) na) = filter (\<lambda>x. \<not> ((x = a \<and> eq a p) \<or> ?Qa x)) na"
      using True by (simp only: filter_filter de_Morgan_disj simp_thms)
    also have "filter (\<lambda>y. \<not> ?Qp y) (filter (\<lambda>e. e \<noteq> p) np) = filter (\<lambda>y. \<not> ((y = p \<and> eq a p) \<or> ?Qp y)) np"
      using True by (simp only: filter_filter de_Morgan_disj simp_thms)
    finally have fin: "match_pairs eq ((a, p) # prs) (res, na, np) =
        Inr ((res @ [(a, p)]) @ filter (\<lambda>pr. eq (fst pr) (snd pr)) prs,
             filter (\<lambda>x. \<not> ((x = a \<and> eq a p) \<or> ?Qa x)) na,
             filter (\<lambda>y. \<not> ((y = p \<and> eq a p) \<or> ?Qp y)) np)" .
    have f1: "res @ filter (\<lambda>pr. eq (fst pr) (snd pr)) ((a, p) # prs)
              = (res @ [(a, p)]) @ filter (\<lambda>pr. eq (fst pr) (snd pr)) prs"
      using True by simp
    show ?thesis
      apply (simp only: pr)
      apply (simp only: qa qp)
      apply (simp only: f1)
      apply (rule fin)
      done
  qed
qed


lemma subseq_delete_at: "subseq (take i xs @ drop (Suc i) xs) xs"
proof -
  have "subseq (drop (Suc i) xs) (drop i xs)"
    by (metis drop_Suc drop_tl subseq_order.order_refl list_emb_Cons list.collapse tl_Nil)
  with subseq_order.order_refl [of "take i xs"]
  have "subseq (take i xs @ drop (Suc i) xs) (take i xs @ drop i xs)"
    by (rule list_emb_append_mono)
  then show ?thesis by simp
qed

lemma subseq_delete_found:
  "delete_found eq pool x = Inr pool' \<Longrightarrow> subseq pool' pool"
  by (auto simp: delete_found_def subseq_delete_at split: if_splits option.splits)

lemma match_pairs_results:
  "match_pairs eq prs (res, na, np) = Inr (res', na', np') \<Longrightarrow>
   res' = res @ filter (\<lambda>pr. eq (fst pr) (snd pr)) prs \<and> subseq na' na \<and> subseq np' np"
proof (induction prs arbitrary: res na np)
  case Nil
  then show ?case by simp
next
  case (Cons pr prs)
  obtain a p where pr: "pr = (a, p)" by (cases pr)
  show ?case
  proof (cases "eq a p")
    case False
    with Cons.prems pr have "match_pairs eq prs (res, na, np) = Inr (res', na', np')" by simp
    from Cons.IH [OF this] False pr show ?thesis by simp
  next
    case True
    with Cons.prems pr obtain na1 np1 where
      d1: "delete_found eq na a = Inr na1" and d2: "delete_found eq np p = Inr np1"
      and run: "match_pairs eq prs (res @ [(a, p)], na1, np1) = Inr (res', na', np')"
      by (auto split: sum.splits)
    from Cons.IH [OF run] have r: "res' = (res @ [(a, p)]) @ filter (\<lambda>pr. eq (fst pr) (snd pr)) prs"
      and s1: "subseq na' na1" and s2: "subseq np' np1"
      by simp_all
    from s1 subseq_delete_found [OF d1] have "subseq na' na"
      by (rule subseq_order.order_trans)
    moreover from s2 subseq_delete_found [OF d2] have "subseq np' np"
      by (rule subseq_order.order_trans)
    ultimately show ?thesis using r True pr by simp
  qed
qed

lemma evaluation_part_results:
  assumes "evaluation_part eq p = Inr rs"
  shows "\<exists>pa pp. rs = filter (\<lambda>pr. eq (fst pr) (snd pr))
                         (List.product (annotations p) (predicted_annotations p))
                       @ map (\<lambda>ann. (ann, empty_entity)) pa
                       @ map (\<lambda>pred. (empty_entity, pred)) pp
                \<and> subseq pa (annotations p) \<and> subseq pp (predicted_annotations p)"
proof -
  from assms obtain res pa pp where
    run: "match_pairs eq (List.product (annotations p) (predicted_annotations p))
            ([], annotations p, predicted_annotations p) = Inr (res, pa, pp)"
    and rs: "rs = res @ map (\<lambda>ann. (ann, empty_entity)) pa @ map (\<lambda>pred. (empty_entity, pred)) pp"
    by (auto simp: evaluation_part_def split: sum.splits)
  from match_pairs_results [OF run] rs show ?thesis by auto
qed


lemma evaluation_part_unequal:
  assumes "pairwise_unequal eq (annotations p)" and "pairwise_unequal eq (predicted_annotations p)"
  shows "evaluation_part eq p =
           Inr (filter (\<lambda>pr. eq (fst pr) (snd pr)) (List.product (annotations p) (predicted_annotations p))
                @ map (\<lambda>ann. (ann, empty_entity))
                    (filter (\<lambda>ann. \<not> (\<exists>pred \<in> set (predicted_annotations p). eq ann pred)) (annotations p))
                @ map (\<lambda>pred. (empty_entity, pred))
                    (filter (\<lambda>pred. \<not> (\<exists>ann \<in> set (annotations p). eq ann pred)) (predicted_annotations p)))"
proof -
  let ?A = "annotations p" and ?P = "predicted_annotations p"
  have ua: "\<forall>x \<in> set ?A. \<forall>y \<in> set ?A. x \<noteq> y \<longrightarrow> \<not> eq x y" and da: "distinct ?A"
    using assms(1) by (simp_all add: pairwise_unequal_def)
  have up: "\<forall>x \<in> set ?P. \<forall>y \<in> set ?P. x \<noteq> y \<longrightarrow> \<not> eq x y" and dp: "distinct ?P"
    using assms(2) by (simp_all add: pairwise_unequal_def)
  have sa: "fst ` set (List.product ?A ?P) \<subseteq> set ?A" and sp: "snd ` set (List.product ?A ?P) \<subseteq> set ?P"
    by auto
  have run: "match_pairs eq (List.product ?A ?P) ([], ?A, ?P) =
           Inr ([] @ filter (\<lambda>pr. eq (fst pr) (snd pr)) (List.product ?A ?P),
                filter (\<lambda>a. \<not> (\<exists>pr \<in> set (List.product ?A ?P). fst pr = a \<and> eq a (snd pr))) ?A,
                filter (\<lambda>p. \<not> (\<exists>pr \<in> set (List.product ?A ?P). snd pr = p \<and> eq (fst pr) p)) ?P)"
    using ua up sa sp subset_refl subset_refl da dp by (rule match_pairs_unequal)
  have fa: "filter (\<lambda>a. \<not> (\<exists>pr \<in> set (List.product ?A ?P). fst pr = a \<and> eq a (snd pr))) ?A
            = filter (\<lambda>ann. \<not> (\<exists>pred \<in> set ?P. eq ann pred)) ?A"
  proof (rule filter_cong [OF refl])
    fix a assume "a \<in> set ?A"
    then show "(\<not> (\<exists>pr \<in> set (List.product ?A ?P). fst pr = a \<and> eq a (snd pr)))
               = (\<not> (\<exists>pred \<in> set ?P. eq a pred))"
      by force
  qed
  have fp: "filter (\<lambda>p. \<not> (\<exists>pr \<in> set (List.product ?A ?P). snd pr = p \<and> eq (fst pr) p)) ?P
            = filter (\<lambda>pred. \<not> (\<exists>ann \<in> set ?A. eq ann pred)) ?P"
  proof (rule filter_cong [OF refl])
    fix q assume "q \<in> set ?P"
    then show "(\<not> (\<exists>pr \<in> set (List.product ?A ?P). snd pr = q \<and> eq (fst pr) q))
               = (\<not> (\<exists>ann \<in> set ?A. eq ann q))"
      by force
  qed
  have "evaluation_part eq p =
          Inr (filter (\<lambda>pr. eq (fst pr) (snd pr)) (List.product ?A ?P)
               @ map (\<lambda>ann. (ann, empty_entity))
                   (filter (\<lambda>a. \<not> (\<exists>pr \<in> set (List.product ?A ?P). fst pr = a \<and> eq a (snd pr))) ?A)
               @ map (\<lambda>pred. (empty_entity, pred))
                   (filter (\<lambda>p. \<not> (\<exists>pr \<in> set (List.product ?A ?P). snd pr = p \<and> eq (fst pr) p)) ?P))"
    by (simp only: evaluation_part_def run sum.case prod.case append_Nil)
  then show ?thesis
    by (simp only: fa fp)
qed


text \<open>
  C4, amended.  The gold and the predicted annotations of a part are compared over the
  cartesian product in list order.  Whenever the matching of the part raises no
  exception, the results recorded for the part are: every gold/prediction pair of the
  product that is equal, in the order of the product (so a gold annotation that is
  equal to several predictions is recorded with each of them, and a prediction with
  each gold annotation it is equal to); then some of the part's gold annotations, in
  list order, each paired with the sentinel empty prediction; then some of its
  predictions, in list order, each paired with the sentinel empty gold entity.  When
  no two gold annotations of the part are equal to each other and no two predictions
  are, no exception is raised, the gold annotations paired with the sentinel are
  exactly those that are equal to no prediction, and the predictions paired with the
  sentinel are exactly those that are equal to no gold annotation.
\<close>

theorem C4_every_equal_pair_is_recorded:
  "(evaluation_part eq p = Inr rs \<longrightarrow>
      (\<exists>pa pp. rs = filter (\<lambda>pr. eq (fst pr) (snd pr))
                        (List.product (annotations p) (predicted_annotations p))
                      @ map (\<lambda>ann. (ann, empty_entity)) pa
                      @ map (\<lambda>pred. (empty_entity, pred)) pp
               \<and> subseq pa (annotations p) \<and> subseq pp (predicted_annotations p)))
   \<and> (pairwise_unequal eq (annotations p) \<and> pairwise_unequal eq (predicted_annotations p) \<longrightarrow>
        evaluation_part eq p =
          Inr (filter (\<lambda>pr. eq (fst pr) (snd pr))
                 (List.product (annotations p) (predicted_annotations p))
               @ map (\<lambda>ann. (ann, empty_entity))
                   (filter (\<lambda>ann. \<not> (\<exists>pred \<in> set (predicted_annotations p). eq ann pred))
                      (annotations p))
               @ map (\<lambda>pred. (empty_entity, pred))
                   (filter (\<lambda>pred. \<not> (\<exists>ann \<in> set (annotations p). eq ann pred))
                      (predicted_annotations p))))"
proof (intro conjI impI)
  assume "evaluation_part eq p = Inr rs"
  then show "\<exists>pa pp. rs = filter (\<lambda>pr. eq (fst pr) (snd pr))
                        (List.product (annotations p) (predicted_annotations p))
                      @ map (\<lambda>ann. (ann, empty_entity)) pa
                      @ map (\<lambda>pred. (empty_entity, pred)) pp
               \<and> subseq pa (annotations p) \<and> subseq pp (predicted_annotations p)"
    by (rule evaluation_part_results)
next
  assume "pairwise_unequal eq (annotations p) \<and> pairwise_unequal eq (predicted_annotations p)"
  then have "pairwise_unequal eq (annotations p)" and "pairwise_unequal eq (predicted_annotations p)"
    by simp_all
  then show "evaluation_part eq p =
          Inr (filter (\<lambda>pr. eq (fst pr) (snd pr))
                 (List.product (annotations p) (predicted_annotations p))
               @ map (\<lambda>ann. (ann, empty_entity))
                   (filter (\<lambda>ann. \<not> (\<exists>pred \<in> set (predicted_annotations p). eq ann pred))
                      (annotations p))
               @ map (\<lambda>pred. (empty_entity, pred))
                   (filter (\<lambda>pred. \<not> (\<exists>ann \<in> set (annotations p). eq ann pred))
                      (predicted_annotations p)))"
    by (rule evaluation_part_unequal)
qed

lemmas entity_defs = gold_long_def gold_far_def pred_left_def pred_right_def pred_alone_def
  part_overlaps_def gold_DE_def pred_ABC_def pred_CDE_def part_overlapping_predictions_def
  exact_or_overlapping_def end_offset_def

text \<open>
  When two predictions overlap each other, a hit can take the other prediction out of
  the pool: \<open>CDE\<close> is recorded with the gold annotation \<open>DE\<close> and again with the
  sentinel, and \<open>ABC\<close>, which no gold annotation meets, is not recorded.
\<close>

lemma overlapping_predictions_results:
  "evaluation_part exact_or_overlapping part_overlapping_predictions =
     Inr [(gold_DE, pred_CDE), (empty_entity, pred_CDE)]"
  by (simp add: evaluation_part_def delete_found_def list_contains_def entity_defs)

text \<open>
  C4, as stated, fails: the gold annotation \<open>ABCDEFGHIJ\<close> at offset 0 overlaps the two
  predictions \<open>ABC\<close> at 0 and \<open>FGH\<close> at 5, and the recorded results pair it with both.
\<close>

theorem C4_gold_paired_with_two_predictions:
  "evaluation_part exact_or_overlapping part_overlaps =
     Inr [(gold_long, pred_left), (gold_long, pred_right),
          (gold_far, empty_entity), (empty_entity, pred_alone)]
   \<and> pred_left \<noteq> pred_right"
  by (simp add: evaluation_part_def delete_found_def list_contains_def entity_defs)

theorem C4_every_equal_pair_is_recorded_witness:
  "evaluation_part exact_or_overlapping part_overlaps =
     Inr ([(gold_long, pred_left), (gold_long, pred_right)]
          @ map (\<lambda>ann. (ann, empty_entity)) [gold_far]
          @ map (\<lambda>pred. (empty_entity, pred)) [pred_alone])
   \<and> (\<exists>pa pp. [(gold_DE, pred_CDE), (empty_entity, pred_CDE)] =
         [(gold_DE, pred_CDE)] @ map (\<lambda>ann. (ann, empty_entity)) pa
           @ map (\<lambda>pred. (empty_entity, pred)) pp
         \<and> subseq pa [gold_DE] \<and> subseq pp [pred_ABC, pred_CDE])"
proof -
  have a: "pairwise_unequal exact_or_overlapping (annotations part_overlaps)
           \<and> pairwise_unequal exact_or_overlapping (predicted_annotations part_overlaps)"
    by (simp add: pairwise_unequal_def entity_defs)
  have first: "evaluation_part exact_or_overlapping part_overlaps =
     Inr ([(gold_long, pred_left), (gold_long, pred_right)]
          @ map (\<lambda>ann. (ann, empty_entity)) [gold_far]
          @ map (\<lambda>pred. (empty_entity, pred)) [pred_alone])"
    using C4_every_equal_pair_is_recorded [of exact_or_overlapping part_overlaps] a
    by (simp add: entity_defs)
  have second: "\<exists>pa pp. [(gold_DE, pred_CDE), (empty_entity, pred_CDE)] =
         [(gold_DE, pred_CDE)] @ map (\<lambda>ann. (ann, empty_entity)) pa
           @ map (\<lambda>pred. (empty_entity, pred)) pp
         \<and> subseq pa [gold_DE] \<and> subseq pp [pred_ABC, pred_CDE]"
    using C4_every_equal_pair_is_recorded [of exact_or_overlapping part_overlapping_predictions
        "[(gold_DE, pred_CDE), (empty_entity, pred_CDE)]"] overlapping_predictions_results
    by (simp add: entity_defs)
  from first second show ?thesis by (rule conjI)
qed

section \<open>Rows of the cross-validation\<close>

lemma dd_append_grouped:
  "distinct ks \<Longrightarrow>
   dd_append (map (\<lambda>k. (k, f k)) ks) k v =
     (if k \<in> set ks then map (\<lambda>k'. (k', if k' = k then f k' @ [v] else f k')) ks
      else map (\<lambda>k. (k, f k)) ks @ [(k, [v])])"
  by (induction ks) auto

lemma first_seen_snoc:
  "rev (remdups (rev (ks @ [k]))) =
     (if k \<in> set ks then rev (remdups (rev ks)) else rev (remdups (rev ks)) @ [k])"
  by simp

lemma foldl_dd_append_grouped:
  "foldl (\<lambda>d sm. dd_append d (fst sm) (snd sm)) [] kvs =
     map (\<lambda>k. (k, map snd (filter (\<lambda>sm. fst sm = k) kvs))) (rev (remdups (rev (map fst kvs))))"
proof (induction kvs rule: rev_induct)
  case Nil
  then show ?case by simp
next
  case (snoc kv kvs)
  obtain k v where kv: "kv = (k, v)" by (cases kv)
  let ?ks = "rev (remdups (rev (map fst kvs)))"
  let ?f = "\<lambda>k. map snd (filter (\<lambda>sm. fst sm = k) kvs)"
  have d: "distinct ?ks" by simp
  have s: "set ?ks = fst ` set kvs" by simp
  have "foldl (\<lambda>d sm. dd_append d (fst sm) (snd sm)) [] (kvs @ [kv]) = dd_append (map (\<lambda>k. (k, ?f k)) ?ks) k v"
    by (simp add: snoc.IH kv)
  also have "\<dots> = (if k \<in> set ?ks then map (\<lambda>k'. (k', if k' = k then ?f k' @ [v] else ?f k')) ?ks
      else map (\<lambda>k. (k, ?f k)) ?ks @ [(k, [v])])"
    using d by (rule dd_append_grouped)
  also have "\<dots> = map (\<lambda>k'. (k', map snd (filter (\<lambda>sm. fst sm = k') (kvs @ [kv]))))
                      (rev (remdups (rev (map fst (kvs @ [kv])))))"
  proof (cases "k \<in> fst ` set kvs")
    case True
    then show ?thesis by (auto simp: kv)
  next
    case False
    then have "\<And>sm. sm \<in> set kvs \<Longrightarrow> fst sm \<noteq> k" by auto
    then have "filter (\<lambda>sm. fst sm = k) kvs = []" by (auto simp: filter_empty_conv)
    with False show ?thesis by (auto simp: kv)
  qed
  finally show ?case .
qed


lemma record_folds_state:
  "rows (record_folds ev k tests st) = rows st @ spec_fold_rows ev k tests
   \<and> folds_results_exact (record_folds ev k tests st) = folds_results_exact st @ fold_totals ev Exact tests
   \<and> folds_results_overlapping (record_folds ev k tests st)
       = folds_results_overlapping st @ fold_totals ev Overlapping tests
   \<and> subclass_averages_exact (record_folds ev k tests st)
       = foldl (\<lambda>d sm. dd_append d (fst sm) (snd sm)) (subclass_averages_exact st)
           (subclass_occurrences ev Exact tests)
   \<and> subclass_averages_overlapping (record_folds ev k tests st)
       = foldl (\<lambda>d sm. dd_append d (fst sm) (snd sm)) (subclass_averages_overlapping st)
           (subclass_occurrences ev Overlapping tests)"
proof (induction tests arbitrary: k st)
  case Nil
  then show ?case
    by (simp add: spec_fold_rows_def fold_totals_def subclass_occurrences_def)
next
  case (Cons t tests)
  let ?st = "record_fold ev k t st"
  have st: "rows ?st = rows st @ fold_rows k Exact (evaluate ev Exact t)
                         @ fold_rows k Overlapping (evaluate ev Overlapping t)"
    "folds_results_exact ?st = folds_results_exact st @ [snd (evaluate ev Exact t)]"
    "folds_results_overlapping ?st = folds_results_overlapping st @ [snd (evaluate ev Overlapping t)]"
    "subclass_averages_exact ?st = foldl (\<lambda>d sm. dd_append d (fst sm) (snd sm))
        (subclass_averages_exact st) (fst (evaluate ev Exact t))"
    "subclass_averages_overlapping ?st = foldl (\<lambda>d sm. dd_append d (fst sm) (snd sm))
        (subclass_averages_overlapping st) (fst (evaluate ev Overlapping t))"
    by (simp_all add: record_fold_def Let_def)
  have sp: "spec_fold_rows ev k (t # tests) =
        (fold_rows k Exact (evaluate ev Exact t) @ fold_rows k Overlapping (evaluate ev Overlapping t))
        @ spec_fold_rows ev (Suc k) tests"
    by (simp add: spec_fold_rows_def)
  have ft: "\<And>s. fold_totals ev s (t # tests) = snd (evaluate ev s t) # fold_totals ev s tests"
    by (simp add: fold_totals_def)
  have so: "\<And>s. subclass_occurrences ev s (t # tests) = fst (evaluate ev s t) @ subclass_occurrences ev s tests"
    by (simp add: subclass_occurrences_def)
  show ?case
    by (simp add: Cons.IH [of "Suc k" ?st] st sp ft so)
qed

lemma foldr_min_same:
  "\<forall>r \<in> set rest. length r = n \<Longrightarrow> foldr (\<lambda>r m. min (length r) m) rest n = n"
  by (induction rest) simp_all

lemma zip_star_eight:
  assumes "xs \<noteq> []" and "\<forall>r \<in> set xs. length r = 8"
  shows "zip_star xs = map (\<lambda>i. map (\<lambda>r. r ! i) xs) [0..<8]"
proof -
  from assms(1) obtain x rest where xs: "xs = x # rest" by (cases xs) auto
  with assms(2) have "length x = 8" and "\<forall>r \<in> set rest. length r = 8" by simp_all
  then have "foldr (\<lambda>r m. min (length r) m) rest (length x) = 8"
    using foldr_min_same [of rest 8] by simp
  then show ?thesis by (simp add: zip_star_def xs del: upt_Suc)
qed

lemma column_means_eight:
  assumes "xs \<noteq> []" and "\<forall>r \<in> set xs. length r = 8"
  shows "column_means xs = mean_of_folds xs"
  by (simp add: column_means_def mean_of_folds_def column_sum_def zip_star_eight [OF assms] comp_def
        del: upt_Suc)

lemma upt_0_5: "[0..<5] = [0, 1, 2, 3, 4::nat]"
  by (simp add: upt_rec)

lemma column_sums5_eight:
  assumes "xs \<noteq> []" and "\<forall>r \<in> set xs. length r = 8"
  shows "column_sums5 xs = [column_sum 0 xs, column_sum 1 xs, column_sum 2 xs, column_sum 3 xs, column_sum 4 xs]"
proof -
  have "column_sums5 xs = take 5 (map (\<lambda>i. column_sum i xs) [0..<8])"
    by (simp add: column_sums5_def column_sum_def zip_star_eight [OF assms] comp_def del: upt_Suc)
  also have "\<dots> = map (\<lambda>i. column_sum i xs) [0..<5]"
    by (simp add: take_map del: upt_Suc)
  finally show ?thesis by (simp add: upt_0_5)
qed

lemma sum_row_eight:
  assumes "xs \<noteq> []" and "\<forall>r \<in> set xs. length r = 8"
  shows "sum_row ev s label xs =
           ([[Txt ''sum_of_folds'', Txt (strictness_name s), label] @ map Num (pooled_measures ev s xs)], None)"
  by (simp add: sum_row_def call_calc_measures_def column_sums5_eight [OF assms] pooled_measures_def)

lemma sum_rows_eight:
  assumes "\<forall>sa \<in> set groups. snd sa \<noteq> [] \<and> (\<forall>r \<in> set (snd sa). length r = 8)"
  shows "sum_rows ev s groups =
           (map (\<lambda>sa. [Txt ''sum_of_folds'', Txt (strictness_name s), Intg (fst sa)]
                        @ map Num (pooled_measures ev s (snd sa))) groups, None)"
  using assms
proof (induction groups)
  case Nil
  then show ?case by simp
next
  case (Cons sa groups)
  then have "snd sa \<noteq> []" and "\<forall>r \<in> set (snd sa). length r = 8" by simp_all
  then have "sum_row ev s (Intg (fst sa)) (snd sa) =
      ([[Txt ''sum_of_folds'', Txt (strictness_name s), Intg (fst sa)] @ map Num (pooled_measures ev s (snd sa))], None)"
    by (rule sum_row_eight)
  moreover have "sum_rows ev s groups =
           (map (\<lambda>sa. [Txt ''sum_of_folds'', Txt (strictness_name s), Intg (fst sa)]
                        @ map Num (pooled_measures ev s (snd sa))) groups, None)"
    using Cons.prems by (intro Cons.IH) simp
  ultimately show ?case by (simp add: then_rows_def)
qed


lemma fold_subclass_seen:
  assumes "eight_measures ev tests" and "k \<in> set (subclasses_seen ev s tests)"
  shows "fold_subclass ev s tests k \<noteq> [] \<and> (\<forall>r \<in> set (fold_subclass ev s tests k). length r = 8)"
proof -
  from assms(2) obtain sm where sm: "sm \<in> set (subclass_occurrences ev s tests)" "fst sm = k"
    by (auto simp: subclasses_seen_def)
  then have ne: "fold_subclass ev s tests k \<noteq> []"
    by (auto simp: fold_subclass_def filter_empty_conv)
  have "\<forall>sm \<in> set (subclass_occurrences ev s tests). length (snd sm) = 8"
    using assms(1) by (auto simp: eight_measures_def subclass_occurrences_def)
  then have "\<forall>r \<in> set (fold_subclass ev s tests k). length r = 8"
    by (auto simp: fold_subclass_def)
  with ne show ?thesis by simp
qed

lemma fold_totals_eight:
  assumes "eight_measures ev tests" and "tests \<noteq> []"
  shows "fold_totals ev s tests \<noteq> [] \<and> (\<forall>r \<in> set (fold_totals ev s tests). length r = 8)"
  using assms by (auto simp: eight_measures_def fold_totals_def)

lemma grouped_subclasses:
  "foldl (\<lambda>d sm. dd_append d (fst sm) (snd sm)) [] (subclass_occurrences ev s tests) =
     map (\<lambda>k. (k, fold_subclass ev s tests k)) (subclasses_seen ev s tests)"
  by (simp only: foldl_dd_append_grouped subclasses_seen_def fold_subclass_def)

lemma average_rows_spec:
  assumes "eight_measures ev tests" and "tests \<noteq> []"
  shows "average_rows s (map (\<lambda>k. (k, fold_subclass ev s tests k)) (subclasses_seen ev s tests))
           (fold_totals ev s tests) = spec_average_rows ev s tests"
proof -
  have g: "\<And>k. k \<in> set (subclasses_seen ev s tests) \<Longrightarrow>
             column_means (fold_subclass ev s tests k) = mean_of_folds (fold_subclass ev s tests k)"
    using fold_subclass_seen [OF assms(1)] by (intro column_means_eight) auto
  have t: "column_means (fold_totals ev s tests) = mean_of_folds (fold_totals ev s tests)"
    using fold_totals_eight [OF assms] by (intro column_means_eight) auto
  show ?thesis
    by (simp add: average_rows_def spec_average_rows_def g t comp_def)
qed

lemma sum_rows_spec:
  assumes "eight_measures ev tests" and "tests \<noteq> []"
  shows "then_rows (sum_rows ev s (map (\<lambda>k. (k, fold_subclass ev c tests k)) (subclasses_seen ev c tests)))
           (then_rows (sum_row ev s (Txt ''total'') (fold_totals ev c tests)) r)
         = (spec_sum_of_folds_rows ev s c tests @ fst r, snd r)"
proof -
  have "\<forall>sa \<in> set (map (\<lambda>k. (k, fold_subclass ev c tests k)) (subclasses_seen ev c tests)).
          snd sa \<noteq> [] \<and> (\<forall>r \<in> set (snd sa). length r = 8)"
    using fold_subclass_seen [OF assms(1)] by auto
  then have a: "sum_rows ev s (map (\<lambda>k. (k, fold_subclass ev c tests k)) (subclasses_seen ev c tests)) =
      (map (\<lambda>sa. [Txt ''sum_of_folds'', Txt (strictness_name s), Intg (fst sa)]
                        @ map Num (pooled_measures ev s (snd sa)))
         (map (\<lambda>k. (k, fold_subclass ev c tests k)) (subclasses_seen ev c tests)), None)"
    by (rule sum_rows_eight)
  have b: "sum_row ev s (Txt ''total'') (fold_totals ev c tests) =
      ([[Txt ''sum_of_folds'', Txt (strictness_name s), Txt ''total'']
          @ map Num (pooled_measures ev s (fold_totals ev c tests))], None)"
    using fold_totals_eight [OF assms] by (intro sum_row_eight) auto
  show ?thesis
    by (simp add: a b then_rows_def spec_sum_of_folds_rows_def comp_def)
qed

lemma then_rows_nothing: "then_rows r ([], None) = r"
  by (cases r) (auto simp: then_rows_def split: option.splits)

text \<open>
  C5, amended.  With at least one fold and eight measures in every tuple of the
  evaluator, the file holds, after the header and the rows of the folds: the
  \<open>average\<close> rows of the exact and of the overlapping setting, each the arithmetic
  means of that setting's per-fold values; then the \<open>sum_of_folds\<close> rows of the exact
  and of the overlapping setting, each computed by summing the per-fold raw counts
  (tp, fp, fn, fp\_overlap, fn\_overlap) of the \<^emph>\<open>exact\<close> setting over the folds and
  applying the \<open>calc_measures\<close> of the row's own setting to the sums.  Both kinds of
  rows are written for both settings, and no exception is raised.
\<close>

theorem C5_sum_of_folds_from_exact_counts:
  assumes "tests \<noteq> []" and "eight_measures ev tests"
  shows "cross_validation_rows ev tests =
           (header_row # spec_fold_rows ev 0 tests
              @ spec_average_rows ev Exact tests
              @ spec_average_rows ev Overlapping tests
              @ spec_sum_of_folds_rows ev Exact Exact tests
              @ spec_sum_of_folds_rows ev Overlapping Exact tests, None)"
proof -
  let ?init = "\<lparr>rows = [header_row], folds_results_exact = [], folds_results_overlapping = [],
                 subclass_averages_exact = [], subclass_averages_overlapping = []\<rparr>"
  let ?st = "record_folds ev 0 tests ?init"
  have st: "rows ?st = header_row # spec_fold_rows ev 0 tests"
    "folds_results_exact ?st = fold_totals ev Exact tests"
    "folds_results_overlapping ?st = fold_totals ev Overlapping tests"
    "subclass_averages_exact ?st
       = map (\<lambda>k. (k, fold_subclass ev Exact tests k)) (subclasses_seen ev Exact tests)"
    "subclass_averages_overlapping ?st
       = map (\<lambda>k. (k, fold_subclass ev Overlapping tests k)) (subclasses_seen ev Overlapping tests)"
    using record_folds_state [of ev 0 tests ?init] by (simp_all add: grouped_subclasses)
  have last_row: "sum_row ev Overlapping (Txt ''total'') (fold_totals ev Exact tests)
        = then_rows (sum_row ev Overlapping (Txt ''total'') (fold_totals ev Exact tests)) ([], None)"
    by (simp only: then_rows_nothing)
  have agg: "aggregate_rows ev ?st =
           (spec_average_rows ev Exact tests @ spec_average_rows ev Overlapping tests
              @ spec_sum_of_folds_rows ev Exact Exact tests
              @ spec_sum_of_folds_rows ev Overlapping Exact tests, None)"
    unfolding aggregate_rows_def st
    apply (subst last_row)
    apply (simp only: sum_rows_spec [OF assms(2) assms(1)] average_rows_spec [OF assms(2) assms(1)])
    apply (simp add: then_rows_def)
    done
  show ?thesis
    by (simp add: cross_validation_rows_def Let_def agg st then_rows_def del: record_folds.simps)
qed


lemmas cv_defs = cross_validation_rows_def aggregate_rows_def average_rows_def sum_row_def
  call_calc_measures_def column_sums5_def column_means_def zip_star_def record_fold_def fold_rows_def
  then_rows_def strictness_name_def header_row_def
lemmas two_fold_defs = two_fold_evaluator_def two_fold_counts_def conventional_measures_def ratio_def

lemma two_fold_totals:
  "fold_totals two_fold_evaluator Exact [True, False] = [[2, 1, 1, 1, 0, 2/3, 2/3, 2/3], [1, 1, 0, 0, 0, 1/2, 1, 2/3]]"
  "fold_totals two_fold_evaluator Overlapping [True, False] = [[2, 0, 1, 1, 0, 1, 2/3, 4/5], [1, 1, 0, 0, 0, 1/2, 1, 2/3]]"
  by (simp_all add: fold_totals_def two_fold_defs)

lemma calc_two_fold: "calc_measures two_fold_evaluator = conventional_measures"
  by (simp add: two_fold_evaluator_def)

lemma two_fold_pooled:
  "pooled_measures two_fold_evaluator Overlapping (fold_totals two_fold_evaluator Exact [True, False])
     = [3, 2, 1, 1, 0, 3/5, 3/4, 2/3]"
  "pooled_measures two_fold_evaluator Overlapping (fold_totals two_fold_evaluator Overlapping [True, False])
     = [3, 1, 1, 1, 0, 3/4, 3/4, 3/4]"
  by (simp_all add: two_fold_totals pooled_measures_def column_sum_def calc_two_fold
        conventional_measures_def ratio_def)

lemma two_fold_last_row:
  "last (fst (cross_validation_rows two_fold_evaluator [True, False]))
     = [Txt ''sum_of_folds'', Txt ''overlapping'', Txt ''total'',
        Num 3, Num 2, Num 1, Num 1, Num 0, Num (3/5), Num (3/4), Num (2/3)]"
  by (simp add: cv_defs two_fold_defs Let_def upt_rec)


lemma two_fold_subclass:
  "subclasses_seen two_fold_evaluator Exact [True, False] = [0]"
  "fold_subclass two_fold_evaluator Exact [True, False] 0 = fold_totals two_fold_evaluator Exact [True, False]"
  by (simp_all add: subclasses_seen_def fold_subclass_def subclass_occurrences_def fold_totals_def
        two_fold_evaluator_def)

lemma two_fold_rows:
  "fst (cross_validation_rows two_fold_evaluator [True, False]) =
    [header_row,
     [Intg 0, Txt ''exact'', Intg 0, Num 2, Num 1, Num 1, Num 1, Num 0, Num (2/3), Num (2/3), Num (2/3)],
     [Intg 0, Txt ''exact'', Txt ''total'', Num 2, Num 1, Num 1, Num 1, Num 0, Num (2/3), Num (2/3), Num (2/3)],
     [Intg 0, Txt ''overlapping'', Intg 0, Num 2, Num 0, Num 1, Num 1, Num 0, Num 1, Num (2/3), Num (4/5)],
     [Intg 0, Txt ''overlapping'', Txt ''total'', Num 2, Num 0, Num 1, Num 1, Num 0, Num 1, Num (2/3), Num (4/5)],
     [Intg 1, Txt ''exact'', Intg 0, Num 1, Num 1, Num 0, Num 0, Num 0, Num (1/2), Num 1, Num (2/3)],
     [Intg 1, Txt ''exact'', Txt ''total'', Num 1, Num 1, Num 0, Num 0, Num 0, Num (1/2), Num 1, Num (2/3)],
     [Intg 1, Txt ''overlapping'', Intg 0, Num 1, Num 1, Num 0, Num 0, Num 0, Num (1/2), Num 1, Num (2/3)],
     [Intg 1, Txt ''overlapping'', Txt ''total'', Num 1, Num 1, Num 0, Num 0, Num 0, Num (1/2), Num 1, Num (2/3)],
     [Txt ''average'', Txt ''exact'', Intg 0, Num (3/2), Num 1, Num (1/2), Num (1/2), Num 0, Num (7/12), Num (5/6), Num (2/3)],
     [Txt ''average'', Txt ''exact'', Txt ''total'', Num (3/2), Num 1, Num (1/2), Num (1/2), Num 0, Num (7/12), Num (5/6), Num (2/3)],
     [Txt ''average'', Txt ''overlapping'', Intg 0, Num (3/2), Num (1/2), Num (1/2), Num (1/2), Num 0, Num (3/4), Num (5/6), Num (11/15)],
     [Txt ''average'', Txt ''overlapping'', Txt ''total'', Num (3/2), Num (1/2), Num (1/2), Num (1/2), Num 0, Num (3/4), Num (5/6), Num (11/15)],
     [Txt ''sum_of_folds'', Txt ''exact'', Intg 0, Num 3, Num 2, Num 1, Num 1, Num 0, Num (3/5), Num (3/4), Num (2/3)],
     [Txt ''sum_of_folds'', Txt ''exact'', Txt ''total'', Num 3, Num 2, Num 1, Num 1, Num 0, Num (3/5), Num (3/4), Num (2/3)],
     [Txt ''sum_of_folds'', Txt ''overlapping'', Intg 0, Num 3, Num 2, Num 1, Num 1, Num 0, Num (3/5), Num (3/4), Num (2/3)],
     [Txt ''sum_of_folds'', Txt ''overlapping'', Txt ''total'', Num 3, Num 2, Num 1, Num 1, Num 0, Num (3/5), Num (3/4), Num (2/3)]]"
  by (simp add: cv_defs two_fold_defs Let_def upt_rec)

text \<open>
  C5, as stated, fails: with two folds whose overlapping counts differ from the exact
  ones, the \<open>sum_of_folds\<close> row of the overlapping setting is computed from the summed
  counts of the exact setting, and the row that the summed counts of the overlapping
  setting would give is not in the file.
\<close>

theorem C5_overlapping_sum_reads_exact_counts:
  "last (fst (cross_validation_rows two_fold_evaluator [True, False]))
     = [Txt ''sum_of_folds'', Txt ''overlapping'', Txt ''total'']
       @ map Num (pooled_measures two_fold_evaluator Overlapping
                    (fold_totals two_fold_evaluator Exact [True, False]))
   \<and> [Txt ''sum_of_folds'', Txt ''overlapping'', Txt ''total'']
       @ map Num (pooled_measures two_fold_evaluator Overlapping
                    (fold_totals two_fold_evaluator Overlapping [True, False]))
     \<notin> set (fst (cross_validation_rows two_fold_evaluator [True, False]))"
  by (simp add: two_fold_rows two_fold_pooled header_row_def)

theorem C5_sum_of_folds_from_exact_counts_witness:
  "cross_validation_rows two_fold_evaluator [True, False] =
     (header_row # spec_fold_rows two_fold_evaluator 0 [True, False]
        @ spec_average_rows two_fold_evaluator Exact [True, False]
        @ spec_average_rows two_fold_evaluator Overlapping [True, False]
        @ spec_sum_of_folds_rows two_fold_evaluator Exact Exact [True, False]
        @ spec_sum_of_folds_rows two_fold_evaluator Overlapping Exact [True, False], None)
   \<and> spec_sum_of_folds_rows two_fold_evaluator Overlapping Exact [True, False] =
       [[Txt ''sum_of_folds'', Txt ''overlapping'', Intg 0,
         Num 3, Num 2, Num 1, Num 1, Num 0, Num (3/5), Num (3/4), Num (2/3)],
        [Txt ''sum_of_folds'', Txt ''overlapping'', Txt ''total'',
         Num 3, Num 2, Num 1, Num 1, Num 0, Num (3/5), Num (3/4), Num (2/3)]]"
proof -
  have ne: "[True, False] \<noteq> []" by simp
  have eight: "eight_measures two_fold_evaluator [True, False]"
    by (simp add: eight_measures_def two_fold_defs split: strictness.split)
  have rows: "spec_sum_of_folds_rows two_fold_evaluator Overlapping Exact [True, False] =
       [[Txt ''sum_of_folds'', Txt ''overlapping'', Intg 0,
         Num 3, Num 2, Num 1, Num 1, Num 0, Num (3/5), Num (3/4), Num (2/3)],
        [Txt ''sum_of_folds'', Txt ''overlapping'', Txt ''total'',
         Num 3, Num 2, Num 1, Num 1, Num 0, Num (3/5), Num (3/4), Num (2/3)]]"
    by (simp add: spec_sum_of_folds_rows_def two_fold_subclass two_fold_pooled strictness_name_def)
  from C5_sum_of_folds_from_exact_counts [OF ne eight] rows show ?thesis
    by (rule conjI)
qed

end
